theory Spec2Isabelle
  imports Main "HOL-Library.Word" "HOL-Library.Sublist" "HOL-Library.Char_ord"
    "HOL-Library.List_Lexorder" "HOL-Library.Multiset"
begin

section \<open>Data model\<close>

text \<open>
  A cell of the input frame: a text, or the float \<open>nan\<close> that pandas puts in an empty cell.
  \<open>str\<close> is Python's \<open>str(x)\<close> on such a cell.
\<close>

datatype pyval = PStr string | PNaN

fun str :: "pyval \<Rightarrow> string" where
  "str (PStr s) = s"
| "str PNaN = ''nan''"

text \<open>
  The module globals that \<open>init\<close> sets from the settings dictionary, under their own names.
  \<open>INPUT_FILE\<close>, \<open>LINK_COLS\<close> and \<open>NAMING_COL\<close> are read by \<open>load_input\<close> only, whose
  result (the rows) is a parameter here.
\<close>

record settings =
  REPORT_FILE :: string
  DL_FOLDER :: string
  TEMP_DL_FOLDER :: string
  FILETYPE :: string
  IS_BIN :: bool
  DOWNLOAD_ALL :: bool
  TIMEOUT :: nat

text \<open>
  The fields of \<open>requests.Response\<close> that the module reads. \<open>headers\<close> is the
  case-insensitive dictionary of the response, keyed by the lower-case header name;
  \<open>body_text\<close> is the attribute \<open>text\<close>.
\<close>

record response =
  status_code :: int
  headers :: "string \<rightharpoonup> string"
  content :: "8 word list"
  body_text :: string
  encoding :: "string option"
  url :: string

text \<open>An exception raised by \<open>rq.get\<close> and caught by the resolver; \<open>str_exn\<close> is \<open>str(e)\<close>.\<close>

datatype exn = RequestException string

fun str_exn :: "exn \<Rightarrow> string" where
  "str_exn (RequestException m) = m"

text \<open>The exceptions that leave a function of the module.\<close>

datatype error =
    KeyError string
  | IsADirectoryError string
  | NotADirectoryError string
  | FileNotFoundError string
  | LookupError "string option"
  | UnicodeEncodeError "string option"
  | OSError string

text \<open>One row of the report: the dictionary built by \<open>_add_to_report\<close>.\<close>

record report =
  name :: string
  success :: bool
  from_url :: string
  exceptions_encountered :: string

text \<open>
  The world outside the program. The file system is a map from paths to nodes: a
  directory, or a file holding the bytes written to it or the sheet of a report. The
  effects on the outside are logged in a trace, in the order they happen: a request
  sent, a file opened for writing, a rename, a frame written. Three things are the
  platform's to decide and are read from the world:
  \<^item> \<open>refused\<close>: the error, if any, with which the platform refuses to create or
    replace a file at a path for a reason of its own (no permission, no room left, a
    file name it cannot take);
  \<^item> \<open>encoder\<close>: for the \<open>encoding\<close> argument of \<open>open\<close> in text mode (\<open>None\<close> is the
    locale's encoding), the function from a text to the bytes written, if Python knows
    the encoding at all; the function has no result on a text that the encoding cannot
    encode;
  \<^item> \<open>ties\<close>: the sort of pandas (quicksort unless told otherwise) is not stable, so
    rows of equal name come out in an order of the library's choosing; \<open>ties\<close> is that
    choice, as a list of swaps made on the frame before a stable sort.
\<close>

datatype payload = Bytes "8 word list" | Sheet "report list"

datatype node = File payload | Dir

datatype event = Get pyval | OpenWrite string | Replace string string | ToExcel string "report list"

record world =
  files :: "string \<rightharpoonup> node"
  trace :: "event list"
  refused :: "string \<Rightarrow> error option"
  encoder :: "string option \<Rightarrow> (string \<Rightarrow> 8 word list option) option"
  ties :: "report list \<Rightarrow> (nat \<times> nat) list"

type_synonym network = "pyval \<Rightarrow> nat \<Rightarrow> exn + response"

type_synonym datarow = "string \<times> pyval list"

section \<open>The functions of \<open>downloader_funcs.py\<close>\<close>

text \<open>
  \<open>_unpack_input\<close>, for the only way it is called (\<open>name_col_i = 0\<close>): the first column is
  the name, a text as the annotations of the module have it (\<open>name: str\<close>); the others
  are the links, of which those printing as \<open>nan\<close> are dropped. The leading underscore
  of the source's private names is left out.
\<close>

fun unpack_input :: "datarow \<Rightarrow> string \<times> pyval list" where
  "unpack_input (nm, cells) = (nm, filter (\<lambda>x. str x \<noteq> ''nan'') cells)"

definition isfile :: "world \<Rightarrow> string \<Rightarrow> bool" where
  "isfile w p = (case files w p of Some (File c) \<Rightarrow> True | _ \<Rightarrow> False)"

definition file_exists :: "settings \<Rightarrow> world \<Rightarrow> string \<Rightarrow> bool" where
  "file_exists cfg w nm =
     (if isfile w (DL_FOLDER cfg @ nm @ ''.'' @ FILETYPE cfg) then True else False)"

text \<open>
  \<open>_is_correct_filetype\<close>: the subscript \<open>response.headers["content-type"]\<close> raises
  \<open>KeyError\<close> when the header is absent; Python's \<open>in\<close> on strings is the substring test.
\<close>

definition is_correct_filetype :: "settings \<Rightarrow> response \<Rightarrow> error + bool" where
  "is_correct_filetype cfg r =
     (case headers r ''content-type'' of
        None \<Rightarrow> Inl (KeyError ''content-type'')
      | Some ct \<Rightarrow> if sublist (FILETYPE cfg) ct then Inr True else Inr False)"

text \<open>
  The loop of \<open>_try_links\<close>, with the variable \<open>res\<close>, the list \<open>exceptions\<close> (which the
  caller still holds when the loop raises) and the world as state. The \<open>try\<close> covers
  \<open>rq.get\<close> only; the test of the response is in the \<open>else\<close> branch, outside the handler.
\<close>

fun try_links_loop ::
  "settings \<Rightarrow> network \<Rightarrow> pyval list \<Rightarrow> response option \<Rightarrow> exn list \<Rightarrow> world
     \<Rightarrow> (error + response option) \<times> exn list \<times> world" where
  "try_links_loop cfg net [] res exceptions w = (Inr res, exceptions, w)"
| "try_links_loop cfg net (u # links) res exceptions w =
     (let w1 = w\<lparr>trace := trace w @ [Get u]\<rparr> in
      case net u (TIMEOUT cfg) of
        Inl e \<Rightarrow> try_links_loop cfg net links res (exceptions @ [e]) w1
      | Inr r \<Rightarrow>
          if status_code r = 200 then
            (case is_correct_filetype cfg r of
               Inl err \<Rightarrow> (Inl err, exceptions, w1)
             | Inr ok \<Rightarrow> try_links_loop cfg net links (if ok then Some r else res) exceptions w1)
          else try_links_loop cfg net links res exceptions w1)"

definition try_links ::
  "settings \<Rightarrow> network \<Rightarrow> pyval list \<Rightarrow> exn list \<Rightarrow> world
     \<Rightarrow> (error + response option) \<times> exn list \<times> world" where
  "try_links cfg net links exceptions w = try_links_loop cfg net links None exceptions w"

text \<open>
  Paths are written with \<open>/\<close>, as the settings of \<open>main.py\<close> are. \<open>dirname\<close> is
  \<open>posixpath.dirname\<close>: the path up to its last \<open>/\<close>, without the slashes at the end
  unless it has nothing else. A file can be created or moved to a path only where the
  folder of the path is there: the empty folder name (the working directory), \<open>.\<close>
  and the root always are, any other has to be a directory of the world.
\<close>

definition dirname :: "string \<Rightarrow> string" where
  "dirname p =
     (let head = rev (dropWhile (\<lambda>c. c \<noteq> CHR ''/'') (rev p)) in
      if head \<noteq> [] \<and> \<not> list_all (\<lambda>c. c = CHR ''/'') head
      then rev (dropWhile (\<lambda>c. c = CHR ''/'') (rev head))
      else head)"

definition parent_check :: "world \<Rightarrow> string \<Rightarrow> error option" where
  "parent_check w p =
     (let d = dirname p in
      if d = [] \<or> d = ''.'' \<or> list_all (\<lambda>c. c = CHR ''/'') d then None
      else (case files w d of
              Some Dir \<Rightarrow> None
            | Some (File c) \<Rightarrow> Some (NotADirectoryError p)
            | None \<Rightarrow> Some (FileNotFoundError p)))"

text \<open>
  What is handed to \<open>write\<close>: bytes for a file opened with \<open>"wb"\<close>, a text for a file
  opened with \<open>"w"\<close> and an encoding.
\<close>

datatype written = Binary "8 word list" | Textual "string option" string

text \<open>
  \<open>with open(path, mode) as f: f.write(data)\<close>, as one step. Opening a directory, or a
  path whose folder is missing, or one that the platform refuses, raises and changes
  nothing. Otherwise the file is created, or emptied if it was there. In text mode an encoding that Python does not
  know raises \<open>LookupError\<close> from \<open>open\<close>, and a text that the encoding cannot encode
  raises \<open>UnicodeEncodeError\<close> from \<open>write\<close>; in both cases the empty file stays behind.
\<close>

definition open_write :: "string \<Rightarrow> written \<Rightarrow> world \<Rightarrow> (error + unit) \<times> world" where
  "open_write p d w =
     (if files w p = Some Dir then (Inl (IsADirectoryError p), w)
      else
        (case parent_check w p of
           Some err \<Rightarrow> (Inl err, w)
         | None \<Rightarrow>
             (case refused w p of
                Some err \<Rightarrow> (Inl err, w)
              | None \<Rightarrow>
                  (let w0 = w\<lparr>files := (files w)(p \<mapsto> File (Bytes [])),
                              trace := trace w @ [OpenWrite p]\<rparr> in
                   case d of
                     Binary bs \<Rightarrow> (Inr (), w0\<lparr>files := (files w0)(p \<mapsto> File (Bytes bs))\<rparr>)
                   | Textual enc txt \<Rightarrow>
                       (case encoder w enc of
                          None \<Rightarrow> (Inl (LookupError enc), w0)
                        | Some encode \<Rightarrow>
                            (case encode txt of
                               None \<Rightarrow> (Inl (UnicodeEncodeError enc), w0)
                             | Some bs \<Rightarrow>
                                 (Inr (), w0\<lparr>files := (files w0)(p \<mapsto> File (Bytes bs))\<rparr>)))))))"

text \<open>
  \<open>os.replace(src, dst)\<close>: the source has to be there; a file is not moved onto a
  directory, nor a directory onto a file, nor anything to a path whose folder is
  missing or that the platform refuses. Otherwise the node moves to the destination, replacing the file that was
  there; onto itself it does nothing. (What lies inside a directory does not move with
  it here; \<open>_save_file\<close> only ever moves the file it has written.)
\<close>

definition os_replace :: "string \<Rightarrow> string \<Rightarrow> world \<Rightarrow> error + world" where
  "os_replace src dst w =
     (case files w src of
        None \<Rightarrow> Inl (FileNotFoundError src)
      | Some n \<Rightarrow>
          if n \<noteq> Dir \<and> files w dst = Some Dir then Inl (IsADirectoryError dst)
          else if n = Dir \<and> (\<exists>c. files w dst = Some (File c)) then Inl (NotADirectoryError dst)
          else
            (case parent_check w dst of
               Some err \<Rightarrow> Inl err
             | None \<Rightarrow>
                 (case refused w src of
                    Some err \<Rightarrow> Inl err
                  | None \<Rightarrow>
                      (case refused w dst of
                         Some err \<Rightarrow> Inl err
                       | None \<Rightarrow>
                           Inr (w\<lparr>files := (if src = dst then files w
                                             else ((files w)(src := None))(dst \<mapsto> n)),
                                 trace := trace w @ [Replace src dst]\<rparr>)))))"

definition save_file ::
  "settings \<Rightarrow> response \<Rightarrow> string \<Rightarrow> world \<Rightarrow> (error + unit) \<times> world" where
  "save_file cfg r nm w =
     (let save_path = TEMP_DL_FOLDER cfg @ nm @ ''.'' @ FILETYPE cfg in
      case (if IS_BIN cfg then open_write save_path (Binary (content r)) w
            else open_write save_path (Textual (encoding r) (body_text r)) w) of
        (Inl err, w1) \<Rightarrow> (Inl err, w1)
      | (Inr u, w1) \<Rightarrow>
          (let final_path = DL_FOLDER cfg @ nm @ ''.'' @ FILETYPE cfg in
           case os_replace save_path final_path w1 of
             Inl err \<Rightarrow> (Inl err, w1)
           | Inr w2 \<Rightarrow> (Inr (), w2)))"

fun join :: "string \<Rightarrow> string list \<Rightarrow> string" where
  "join sep [] = []"
| "join sep [x] = x"
| "join sep (x # y # ys) = x @ sep @ join sep (y # ys)"

definition add_to_report ::
  "report list \<Rightarrow> string \<Rightarrow> bool \<Rightarrow> response option \<Rightarrow> exn list \<Rightarrow> report list" where
  "add_to_report reports nm succ resp exceptions =
     (let content0 = \<lparr>name = nm, success = succ, from_url = '''', exceptions_encountered = ''''\<rparr>;
          content1 = (case resp of None \<Rightarrow> content0 | Some r \<Rightarrow> content0\<lparr>from_url := url r\<rparr>);
          content2 = (if exceptions \<noteq> []
                      then content1\<lparr>exceptions_encountered := join '' ; AND ; '' (map str_exn exceptions)\<rparr>
                      else content1)
      in reports @ [content2])"

text \<open>
  \<open>thread_job\<close>, run from its first line to its last with nothing else happening in
  between: what it returns is what the future of the row holds, \<open>Inr ()\<close> for a normal
  return and \<open>Inl\<close> for an exception; the list \<open>reports\<close> and the world are the state it
  works on. When \<open>_save_file\<close> raises, what it did before stays done. The line printed
  after a download is left out.
\<close>

definition thread_job ::
  "settings \<Rightarrow> network \<Rightarrow> datarow \<Rightarrow> report list \<Rightarrow> world
     \<Rightarrow> (error + unit) \<times> report list \<times> world" where
  "thread_job cfg net input_row reports w =
     (case unpack_input input_row of (nm, links) \<Rightarrow>
        if DOWNLOAD_ALL cfg = False \<and> file_exists cfg w nm then (Inr (), reports, w)
        else
          (case try_links cfg net links [] w of
             (Inl err, exceptions, w1) \<Rightarrow> (Inl err, reports, w1)
           | (Inr (Some r), exceptions, w1) \<Rightarrow>
               (case save_file cfg r nm w1 of
                  (Inl err, w2) \<Rightarrow> (Inl err, reports, w2)
                | (Inr u, w2) \<Rightarrow> (Inr (), add_to_report reports nm True (Some r) exceptions, w2))
           | (Inr None, exceptions, w1) \<Rightarrow>
               (Inr (), add_to_report reports nm False None exceptions, w1)))"

text \<open>
  \<open>write_report\<close>: the frame \<open>df\<close> is a list of rows; each turn of the loop appends one
  report and sorts the frame by the column \<open>name\<close> (\<open>sort_values\<close>, ascending; Python
  compares strings code point by code point, the lexicographic order of lists here).
  The sort puts the names in order and leaves the order of rows of equal name to
  \<open>ties\<close>. Then the frame is written to \<open>REPORT_FILE\<close>, replacing what was there; the
  writer opens the path as \<open>open\<close> does.
\<close>

fun swap_all :: "(nat \<times> nat) list \<Rightarrow> 'a list \<Rightarrow> 'a list" where
  "swap_all [] xs = xs"
| "swap_all ((i, j) # ps) xs =
     swap_all ps (if i < length xs \<and> j < length xs then xs[i := xs ! j, j := xs ! i] else xs)"

definition sort_values :: "world \<Rightarrow> report list \<Rightarrow> report list" where
  "sort_values w df = sort_key name (swap_all (ties w df) df)"

fun concat_sort :: "world \<Rightarrow> report list \<Rightarrow> report list \<Rightarrow> report list" where
  "concat_sort w df [] = df"
| "concat_sort w df (item # reports) = concat_sort w (sort_values w (df @ [item])) reports"

definition write_report :: "settings \<Rightarrow> report list \<Rightarrow> world \<Rightarrow> (error + unit) \<times> world" where
  "write_report cfg reports w =
     (let df = concat_sort w [] reports in
      if files w (REPORT_FILE cfg) = Some Dir then (Inl (IsADirectoryError (REPORT_FILE cfg)), w)
      else
        (case parent_check w (REPORT_FILE cfg) of
           Some err \<Rightarrow> (Inl err, w)
         | None \<Rightarrow>
             (case refused w (REPORT_FILE cfg) of
                Some err \<Rightarrow> (Inl err, w)
              | None \<Rightarrow>
                  (Inr (), w\<lparr>files := (files w)(REPORT_FILE cfg \<mapsto> File (Sheet df)),
                             trace := trace w @ [ToExcel (REPORT_FILE cfg) df]\<rparr>))))"

section \<open>The orchestrator of \<open>main.py\<close>\<close>

text \<open>
  \<open>main\<close> submits one task per row to a pool of threads, leaves the \<open>with\<close> block, waits
  for the futures and writes the report. The tasks run side by side, so \<open>thread_job\<close> is
  taken apart here into the steps between which another thread may run: the test at
  the gate, each request with the test of its response, the writing of the staged file
  (opened, written and closed in one step), the rename, the append to \<open>reports\<close>. A
  task is its row and the point it has reached:
  \<^item> \<open>Pending\<close>: submitted, not started;
  \<^item> \<open>Resolving links res exceptions\<close>: in the loop of \<open>_try_links\<close>, with the links
    still to be tried and the two variables of the loop;
  \<^item> \<open>Saving r exceptions\<close>: the resolver has returned \<open>r\<close>, \<open>_save_file\<close> is about to
    write the staged file;
  \<^item> \<open>Moving r exceptions\<close>: the staged file is written, \<open>os.replace\<close> is next;
  \<^item> \<open>Reporting success response exceptions\<close>: \<open>_add_to_report\<close> is next;
  \<^item> \<open>Skipped\<close>, \<open>Reported\<close>, \<open>Raised err\<close>: the future is done: the task returned at
    the gate, returned after its report, or ended with an exception, which stays in the
    future since nobody asks for its result.
\<close>

datatype phase =
    Pending
  | Resolving "pyval list" "response option" "exn list"
  | Saving response "exn list"
  | Moving response "exn list"
  | Reporting bool "response option" "exn list"
  | Skipped
  | Reported
  | Raised error

type_synonym task = "datarow \<times> phase"

fun task_step ::
  "settings \<Rightarrow> network \<Rightarrow> task \<Rightarrow> report list \<Rightarrow> world \<Rightarrow> task \<times> report list \<times> world" where
  "task_step cfg net (row, Pending) reports w =
     (case unpack_input row of (nm, links) \<Rightarrow>
        if DOWNLOAD_ALL cfg = False \<and> file_exists cfg w nm then ((row, Skipped), reports, w)
        else ((row, Resolving links None []), reports, w))"
| "task_step cfg net (row, Resolving [] res exceptions) reports w =
     (case res of
        Some r \<Rightarrow> ((row, Saving r exceptions), reports, w)
      | None \<Rightarrow> ((row, Reporting False None exceptions), reports, w))"
| "task_step cfg net (row, Resolving (u # links) res exceptions) reports w =
     (let w1 = w\<lparr>trace := trace w @ [Get u]\<rparr> in
      case net u (TIMEOUT cfg) of
        Inl e \<Rightarrow> ((row, Resolving links res (exceptions @ [e])), reports, w1)
      | Inr r \<Rightarrow>
          if status_code r = 200 then
            (case is_correct_filetype cfg r of
               Inl err \<Rightarrow> ((row, Raised err), reports, w1)
             | Inr ok \<Rightarrow> ((row, Resolving links (if ok then Some r else res) exceptions), reports, w1))
          else ((row, Resolving links res exceptions), reports, w1))"
| "task_step cfg net (row, Saving r exceptions) reports w =
     (let save_path = TEMP_DL_FOLDER cfg @ fst row @ ''.'' @ FILETYPE cfg in
      case (if IS_BIN cfg then open_write save_path (Binary (content r)) w
            else open_write save_path (Textual (encoding r) (body_text r)) w) of
        (Inl err, w1) \<Rightarrow> ((row, Raised err), reports, w1)
      | (Inr u, w1) \<Rightarrow> ((row, Moving r exceptions), reports, w1))"
| "task_step cfg net (row, Moving r exceptions) reports w =
     (let save_path = TEMP_DL_FOLDER cfg @ fst row @ ''.'' @ FILETYPE cfg;
          final_path = DL_FOLDER cfg @ fst row @ ''.'' @ FILETYPE cfg in
      case os_replace save_path final_path w of
        Inl err \<Rightarrow> ((row, Raised err), reports, w)
      | Inr w2 \<Rightarrow> ((row, Reporting True (Some r) exceptions), reports, w2))"
| "task_step cfg net (row, Reporting succ resp exceptions) reports w =
     ((row, Reported), add_to_report reports (fst row) succ resp exceptions, w)"
| "task_step cfg net (row, Skipped) reports w = ((row, Skipped), reports, w)"
| "task_step cfg net (row, Reported) reports w = ((row, Reported), reports, w)"
| "task_step cfg net (row, Raised err) reports w = ((row, Raised err), reports, w)"

text \<open>
  The state of a run: the tasks (\<open>fs\<close> of \<open>main\<close>, one future per row, in the order of
  the rows), the list \<open>reports\<close> that the tasks share, the world, and what the main
  thread has got from \<open>write_report\<close>, if it has called it yet. A schedule says whose
  turn it is, step by step: a worker's with its task, or the main thread's. The main
  thread, at the end of the \<open>with\<close> block and in \<open>cf.wait\<close>, stays where it is until every
  future is done; then it calls \<open>write_report\<close>, once. Any task may move at any time:
  these are more schedules than a pool with a bound on its workers allows, none fewer.
\<close>

fun finished :: "phase \<Rightarrow> bool" where
  "finished Skipped = True"
| "finished Reported = True"
| "finished (Raised err) = True"
| "finished ph = False"

datatype actor = Worker nat | MainThread

record pool =
  futures :: "task list"
  collected :: "report list"
  env :: world
  main_done :: "(error + unit) option"

fun step :: "settings \<Rightarrow> network \<Rightarrow> actor \<Rightarrow> pool \<Rightarrow> pool" where
  "step cfg net (Worker i) st =
     (if i < length (futures st) then
        (case task_step cfg net (futures st ! i) (collected st) (env st) of
           (t, reports, w) \<Rightarrow> st\<lparr>futures := (futures st)[i := t], collected := reports, env := w\<rparr>)
      else st)"
| "step cfg net MainThread st =
     (if main_done st = None \<and> list_all (\<lambda>t. finished (snd t)) (futures st) then
        (case write_report cfg (collected st) (env st) of
           (res, w) \<Rightarrow> st\<lparr>env := w, main_done := Some res\<rparr>)
      else st)"

fun run :: "settings \<Rightarrow> network \<Rightarrow> actor list \<Rightarrow> pool \<Rightarrow> pool" where
  "run cfg net [] st = st"
| "run cfg net (a # sched) st = run cfg net sched (step cfg net a st)"

text \<open>
  \<open>main\<close> from the point where the settings are initialised and tested and the input is
  loaded: \<open>data\<close> is the frame that \<open>load_input\<close> returned. \<open>main\<close> has returned in the
  state it gives when \<open>main_done\<close> is set.
\<close>

definition main :: "settings \<Rightarrow> network \<Rightarrow> datarow list \<Rightarrow> actor list \<Rightarrow> world \<Rightarrow> pool" where
  "main cfg net data sched w =
     run cfg net sched
       \<lparr>futures = map (\<lambda>row. (row, Pending)) data, collected = [], env = w, main_done = None\<rparr>"

section \<open>Notions used to state the properties\<close>

text \<open>
  The acceptance check of the resolver, as its loop evaluates it: the status code first,
  and the content type only for a status of 200. \<open>check_raises\<close> says that the check of
  the response of \<open>u\<close> ends in the \<open>KeyError\<close> of the header lookup.
\<close>

definition accepted :: "settings \<Rightarrow> response \<Rightarrow> bool" where
  "accepted cfg r = (status_code r = 200 \<and> is_correct_filetype cfg r = Inr True)"

definition check_raises :: "settings \<Rightarrow> network \<Rightarrow> pyval \<Rightarrow> bool" where
  "check_raises cfg net u =
     (case net u (TIMEOUT cfg) of
        Inl e \<Rightarrow> False
      | Inr r \<Rightarrow> status_code r = 200 \<and> headers r ''content-type'' = None)"

text \<open>
  The candidates that the loop requests: all of them, up to and including the first one
  on which the check raises. \<open>winner\<close> is the last accepted response on the way,
  \<open>failures\<close> the exceptions of the requests that failed, in order.
\<close>

fun attempted :: "settings \<Rightarrow> network \<Rightarrow> pyval list \<Rightarrow> pyval list" where
  "attempted cfg net [] = []"
| "attempted cfg net (u # links) =
     u # (if check_raises cfg net u then [] else attempted cfg net links)"

fun winner :: "settings \<Rightarrow> network \<Rightarrow> pyval list \<Rightarrow> response option \<Rightarrow> response option" where
  "winner cfg net [] res = res"
| "winner cfg net (u # links) res =
     winner cfg net links
       (case net u (TIMEOUT cfg) of
          Inl e \<Rightarrow> res
        | Inr r \<Rightarrow> if accepted cfg r then Some r else res)"

fun failures :: "settings \<Rightarrow> network \<Rightarrow> pyval list \<Rightarrow> exn list" where
  "failures cfg net [] = []"
| "failures cfg net (u # links) =
     (case net u (TIMEOUT cfg) of Inl e \<Rightarrow> [e] | Inr r \<Rightarrow> []) @ failures cfg net links"

definition accepted_at :: "settings \<Rightarrow> network \<Rightarrow> pyval \<Rightarrow> bool" where
  "accepted_at cfg net u =
     (case net u (TIMEOUT cfg) of Inl e \<Rightarrow> False | Inr r \<Rightarrow> accepted cfg r)"

text \<open>The requests and the report writes of a trace.\<close>

fun gets :: "event list \<Rightarrow> pyval list" where
  "gets [] = []"
| "gets (Get u # evs) = u # gets evs"
| "gets (e # evs) = gets evs"

fun excel_writes :: "event list \<Rightarrow> (string \<times> report list) list" where
  "excel_writes [] = []"
| "excel_writes (ToExcel p df # evs) = (p, df) # excel_writes evs"
| "excel_writes (e # evs) = excel_writes evs"


text \<open>A path at which a file can be created or replaced.\<close>

definition writable :: "world \<Rightarrow> string \<Rightarrow> bool" where
  "writable w p = (files w p \<noteq> Some Dir \<and> parent_check w p = None \<and> refused w p = None)"

text \<open>The Existence Gate: the condition under which \<open>thread_job\<close> returns at once.\<close>

definition should_skip :: "settings \<Rightarrow> world \<Rightarrow> string \<Rightarrow> bool" where
  "should_skip cfg w nm =
     (DOWNLOAD_ALL cfg = False \<and> isfile w (DL_FOLDER cfg @ nm @ ''.'' @ FILETYPE cfg))"

text \<open>
  What the future of a finished task holds. \<open>task_run n\<close> lets one task take \<open>n\<close> steps
  with no other thread in between.
\<close>

fun outcome :: "phase \<Rightarrow> error + unit" where
  "outcome (Raised err) = Inl err"
| "outcome ph = Inr ()"

fun task_run ::
  "nat \<Rightarrow> settings \<Rightarrow> network \<Rightarrow> task \<Rightarrow> report list \<Rightarrow> world \<Rightarrow> task \<times> report list \<times> world" where
  "task_run 0 cfg net t reports w = (t, reports, w)"
| "task_run (Suc n) cfg net t reports w =
     (case task_step cfg net t reports w of
        (t1, reports1, w1) \<Rightarrow> task_run n cfg net t1 reports1 w1)"

text \<open>
  A bound on the steps a task still has to take, and the schedules that give every task
  of the rows at least as many turns as it can need.
\<close>

fun steps_left :: "task \<Rightarrow> nat" where
  "steps_left (row, Pending) = length (snd row) + 5"
| "steps_left (row, Resolving links res exceptions) = length links + 4"
| "steps_left (row, Saving r exceptions) = 3"
| "steps_left (row, Moving r exceptions) = 2"
| "steps_left (row, Reporting succ resp exceptions) = 1"
| "steps_left (row, ph) = 0"

definition enough :: "actor list \<Rightarrow> datarow list \<Rightarrow> bool" where
  "enough sched data =
     list_all (\<lambda>i. length (snd (data ! i)) + 5 \<le> count_list sched (Worker i)) [0..<length data]"

text \<open>The names of the tasks that have appended their report.\<close>

definition reported_names :: "task list \<Rightarrow> string list" where
  "reported_names ts = map (\<lambda>t. fst (fst t)) (filter (\<lambda>t. snd t = Reported) ts)"

text \<open>The tasks whose staged file is written and not yet moved hold a file, not a directory.\<close>

definition staged_ok :: "settings \<Rightarrow> pool \<Rightarrow> bool" where
  "staged_ok cfg st =
     (\<forall>t \<in> set (futures st). \<forall>r ex. snd t = Moving r ex \<longrightarrow>
        files (env st) (TEMP_DL_FOLDER cfg @ fst (fst t) @ ''.'' @ FILETYPE cfg) \<noteq> Some Dir)"

section \<open>A concrete setting\<close>

text \<open>
  \<open>settings_jpeg\<close> and \<open>settings_html\<close> are two of the profiles of \<open>main.py\<close>. The
  network below answers five addresses: \<open>A\<close> and \<open>C\<close> with a JPEG, \<open>H\<close> with a
  page of HTML, \<open>D\<close> with a status of 200 and no header at all, \<open>E\<close> with a status of
  404 and no header; a request to any other address fails. In the world, the folders
  of the two profiles are there, as \<open>init\<close> leaves them, and one file has been
  downloaded before. The platform refuses no path; it knows the encodings \<open>utf-8\<close> (also the locale's) and
  \<open>ascii\<close>, for texts of code points below 128 as they are written here, and no other;
  its sort makes no swaps.
\<close>

definition settings_jpeg :: settings where
  "settings_jpeg =
     \<lparr>REPORT_FILE = ''./reports/test_jpeg.xlsx'', DL_FOLDER = ''./jpeg/'',
      TEMP_DL_FOLDER = ''./jpeg_temp/'', FILETYPE = ''jpeg'', IS_BIN = True,
      DOWNLOAD_ALL = True, TIMEOUT = 10\<rparr>"

definition settings_html :: settings where
  "settings_html =
     \<lparr>REPORT_FILE = ''./reports/test_html.xlsx'', DL_FOLDER = ''./html/'',
      TEMP_DL_FOLDER = ''./html_temp/'', FILETYPE = ''html'', IS_BIN = False,
      DOWNLOAD_ALL = True, TIMEOUT = 10\<rparr>"

definition jpeg_response :: "string \<Rightarrow> response" where
  "jpeg_response u =
     \<lparr>status_code = 200, headers = [''content-type'' \<mapsto> ''image/jpeg''],
      content = [255, 216, 255], body_text = [], encoding = None, url = u\<rparr>"

definition html_response :: "string \<Rightarrow> response" where
  "html_response u =
     \<lparr>status_code = 200, headers = [''content-type'' \<mapsto> ''text/html''],
      content = [60, 112, 62], body_text = ''<p>'', encoding = Some ''utf-8'', url = u\<rparr>"

definition bare_response :: "int \<Rightarrow> string \<Rightarrow> response" where
  "bare_response code u =
     \<lparr>status_code = code, headers = Map.empty, content = [], body_text = [],
      encoding = None, url = u\<rparr>"

definition example_net :: network where
  "example_net u t =
     (if u = PStr ''A'' then Inr (jpeg_response ''A'')
      else if u = PStr ''C'' then Inr (jpeg_response ''C'')
      else if u = PStr ''H'' then Inr (html_response ''H'')
      else if u = PStr ''D'' then Inr (bare_response 200 ''D'')
      else if u = PStr ''E'' then Inr (bare_response 404 ''E'')
      else Inl (RequestException ''timed out''))"

definition example_encoder :: "string option \<Rightarrow> (string \<Rightarrow> 8 word list option) option" where
  "example_encoder enc =
     (if enc = None \<or> enc = Some ''utf-8'' \<or> enc = Some ''ascii''
      then Some (\<lambda>txt. if list_all (\<lambda>c. (of_char c :: nat) < 128) txt
                        then Some (map of_char txt) else None)
      else None)"

definition example_world :: world where
  "example_world =
     \<lparr>files = [''./jpeg'' \<mapsto> Dir, ''./jpeg_temp'' \<mapsto> Dir, ''./html'' \<mapsto> Dir,
               ''./html_temp'' \<mapsto> Dir, ''./reports'' \<mapsto> Dir,
               ''./jpeg/old.jpeg'' \<mapsto> File (Bytes [7])],
      trace = [], refused = (\<lambda>p. None), encoder = example_encoder, ties = (\<lambda>df. [])\<rparr>"

section \<open>The resolver\<close>

lemma accepted_iff:
  "accepted cfg r \<longleftrightarrow> status_code r = 200 \<and> (\<exists>ct. headers r ''content-type'' = Some ct \<and> sublist (FILETYPE cfg) ct)"
  by (auto simp: accepted_def is_correct_filetype_def split: option.splits)

lemma try_links_loop_world:
  "try_links_loop cfg net links res excs w = (out, excs', w') \<Longrightarrow>
     files w' = files w \<and> trace w' = trace w @ map Get (attempted cfg net links)"
proof (induction links arbitrary: res excs w)
  case Nil
  then show ?case by simp
next
  case (Cons u links)
  show ?case
  proof (cases "net u (TIMEOUT cfg)")
    case (Inl e)
    with Cons.prems Cons.IH[of res "excs @ [e]" "w\<lparr>trace := trace w @ [Get u]\<rparr>"]
    show ?thesis by (simp add: check_raises_def)
  next
    case (Inr r)
    show ?thesis
    proof (cases "status_code r = 200")
      case True
      show ?thesis
      proof (cases "headers r ''content-type''")
        case None
        with Cons.prems Inr True show ?thesis
          by (auto simp: check_raises_def is_correct_filetype_def)
      next
        case (Some ct)
        with Cons.prems Inr True
          Cons.IH[of "if sublist (FILETYPE cfg) ct then Some r else res" excs "w\<lparr>trace := trace w @ [Get u]\<rparr>"]
        show ?thesis
          by (auto simp: check_raises_def is_correct_filetype_def split: if_splits)
      qed
    next
      case False
      with Cons.prems Inr Cons.IH[of res excs "w\<lparr>trace := trace w @ [Get u]\<rparr>"]
      show ?thesis by (simp add: check_raises_def)
    qed
  qed
qed

lemma try_links_loop_returns:
  "\<forall>u \<in> set links. \<not> check_raises cfg net u \<Longrightarrow>
   try_links_loop cfg net links res excs w =
     (Inr (winner cfg net links res), excs @ failures cfg net links,
      w\<lparr>trace := trace w @ map Get links\<rparr>)"
proof (induction links arbitrary: res excs w)
  case Nil
  then show ?case by simp
next
  case (Cons u links)
  then have nr: "\<not> check_raises cfg net u" and rest: "\<forall>u \<in> set links. \<not> check_raises cfg net u"
    by simp_all
  show ?case
  proof (cases "net u (TIMEOUT cfg)")
    case (Inl e)
    then show ?thesis using Cons.IH[OF rest] by simp
  next
    case (Inr r)
    then show ?thesis using Cons.IH[OF rest] nr
      by (auto simp: check_raises_def is_correct_filetype_def accepted_def Let_def split: option.splits)
  qed
qed

lemma try_links_loop_raises:
  "\<exists>u \<in> set links. check_raises cfg net u \<Longrightarrow>
   fst (try_links_loop cfg net links res excs w) = Inl (KeyError ''content-type'')"
proof (induction links arbitrary: res excs w)
  case Nil
  then show ?case by simp
next
  case (Cons u links)
  show ?case
  proof (cases "check_raises cfg net u")
    case True
    then show ?thesis
      by (auto simp: check_raises_def is_correct_filetype_def split: sum.splits)
  next
    case False
    with Cons.prems have "\<exists>u \<in> set links. check_raises cfg net u" by simp
    from Cons.IH[OF this] False show ?thesis
      by (auto simp: check_raises_def is_correct_filetype_def Let_def split: sum.splits option.splits)
  qed
qed

lemma try_links_loop_error:
  "try_links_loop cfg net links res excs w = (Inl err, excs', w') \<Longrightarrow> err = KeyError ''content-type''"
  by (induction links arbitrary: res excs w)
     (auto simp: is_correct_filetype_def Let_def split: sum.splits if_splits option.splits)

section \<open>The winner of the resolver\<close>

lemma winner_accepted:
  "winner cfg net links res = Some r \<Longrightarrow>
     res = Some r \<or> (accepted cfg r \<and> (\<exists>u \<in> set links. net u (TIMEOUT cfg) = Inr r))"
  by (induction links arbitrary: res) (auto split: sum.splits if_splits)

lemma try_links_loop_Inr:
  assumes "try_links_loop cfg net links res excs w = (Inr win, excs', w')"
  shows "win = winner cfg net links res" and "excs' = excs @ failures cfg net links"
    and "w' = w\<lparr>trace := trace w @ map Get links\<rparr>"
proof -
  have nr: "\<forall>u \<in> set links. \<not> check_raises cfg net u"
  proof (rule ccontr)
    assume "\<not> (\<forall>u \<in> set links. \<not> check_raises cfg net u)"
    then have "\<exists>u \<in> set links. check_raises cfg net u" by simp
    from try_links_loop_raises[OF this, of res excs w] assms show False by simp
  qed
  from try_links_loop_returns[OF nr, of res excs w] assms
  show "win = winner cfg net links res" and "excs' = excs @ failures cfg net links"
    and "w' = w\<lparr>trace := trace w @ map Get links\<rparr>" by simp_all
qed

lemma winner_append:
  "winner cfg net (xs @ ys) res = winner cfg net ys (winner cfg net xs res)"
  by (induction xs arbitrary: res) simp_all

lemma winner_last:
  "winner cfg net links res =
     (case rev (filter (accepted_at cfg net) links) of
        [] \<Rightarrow> res
      | u # us \<Rightarrow> (case net u (TIMEOUT cfg) of Inl e \<Rightarrow> res | Inr r \<Rightarrow> Some r))"
  by (induction links rule: rev_induct)
     (auto simp: winner_append accepted_at_def split: sum.splits)

lemma try_links_last_wins:
  "\<forall>u \<in> set links. \<not> check_raises cfg net u \<Longrightarrow>
   try_links cfg net links [] w =
     (Inr (winner cfg net links None), failures cfg net links,
      w\<lparr>trace := trace w @ map Get links\<rparr>)"
  using try_links_loop_returns[of links cfg net None "[]" w] by (simp add: try_links_def)

lemma try_links_A_B_C:
  assumes "net a (TIMEOUT cfg) = Inr ra" and "accepted cfg ra"
    and "net b (TIMEOUT cfg) = Inl e"
    and "net c (TIMEOUT cfg) = Inr rc" and "accepted cfg rc"
  shows "try_links cfg net [a, b, c] [] w =
           (Inr (Some rc), [e], w\<lparr>trace := trace w @ [Get a, Get b, Get c]\<rparr>)"
  using assms by (simp add: try_links_def accepted_def Let_def)

section \<open>Effects of the calls of one task\<close>

lemma gets_append: "gets (xs @ ys) = gets xs @ gets ys"
  by (induction xs rule: gets.induct) simp_all

lemma gets_map_Get: "gets (map Get us) = us"
  by (induction us) simp_all

lemma excel_writes_append: "excel_writes (xs @ ys) = excel_writes xs @ excel_writes ys"
  by (induction xs rule: excel_writes.induct) simp_all

lemma excel_writes_map_Get: "excel_writes (map Get us) = []"
  by (induction us) simp_all

lemma open_write_effects:
  "open_write p d w = (out, w') \<Longrightarrow>
     (\<exists>evs. trace w' = trace w @ evs \<and> gets evs = [] \<and> excel_writes evs = []) \<and>
     (\<forall>q. files w' q = Some Dir \<longleftrightarrow> files w q = Some Dir) \<and>
     (out = Inr () \<longrightarrow> (\<exists>bs. files w' p = Some (File (Bytes bs)))) \<and>
     encoder w' = encoder w \<and> ties w' = ties w \<and> refused w' = refused w"
  by (auto simp: open_write_def Let_def split: if_splits option.splits written.splits)

lemma os_replace_effects:
  "os_replace src dst w = Inr w' \<Longrightarrow> files w src \<noteq> Some Dir \<Longrightarrow>
     trace w' = trace w @ [Replace src dst] \<and>
     (\<forall>q. files w' q = Some Dir \<longleftrightarrow> files w q = Some Dir) \<and>
     encoder w' = encoder w \<and> ties w' = ties w \<and> refused w' = refused w"
  by (auto simp: os_replace_def split: if_splits option.splits)

lemma save_file_effects:
  "save_file cfg r nm w = (out, w') \<Longrightarrow>
     gets (trace w') = gets (trace w) \<and> excel_writes (trace w') = excel_writes (trace w) \<and>
     (\<forall>q. files w' q = Some Dir \<longleftrightarrow> files w q = Some Dir)"
proof -
  assume a: "save_file cfg r nm w = (out, w')"
  let ?sp = "TEMP_DL_FOLDER cfg @ nm @ ''.'' @ FILETYPE cfg"
  let ?fp = "DL_FOLDER cfg @ nm @ ''.'' @ FILETYPE cfg"
  let ?d = "if IS_BIN cfg then Binary (content r) else Textual (encoding r) (body_text r)"
  obtain o1 w1 where ow: "open_write ?sp ?d w = (o1, w1)" by (cases "open_write ?sp ?d w") auto
  note e1 = open_write_effects[OF ow]
  show ?thesis
  proof (cases o1)
    case (Inl err)
    with a ow have "w' = w1" by (auto simp: save_file_def Let_def split: if_splits)
    with e1 show ?thesis by (auto simp: gets_append excel_writes_append)
  next
    case (Inr u)
    with e1 have "\<exists>bs. files w1 ?sp = Some (File (Bytes bs))" by simp
    then have nd: "files w1 ?sp \<noteq> Some Dir" by auto
    show ?thesis
    proof (cases "os_replace ?sp ?fp w1")
      case (Inl err)
      with a ow Inr have "w' = w1" by (auto simp: save_file_def Let_def split: if_splits)
      with e1 show ?thesis by (auto simp: gets_append excel_writes_append)
    next
      case r: (Inr w2)
      with a ow Inr have "w' = w2" by (auto simp: save_file_def Let_def split: if_splits)
      with os_replace_effects[OF r nd] e1 show ?thesis
        by (auto simp: gets_append excel_writes_append)
    qed
  qed
qed

lemma try_links_effects:
  "try_links cfg net links excs w = (out, excs', w') \<Longrightarrow>
     files w' = files w \<and> trace w' = trace w @ map Get (attempted cfg net links)"
  unfolding try_links_def by (rule try_links_loop_world)

lemma thread_job_skip:
  "should_skip cfg w nm \<Longrightarrow> thread_job cfg net (nm, cells) reports w = (Inr (), reports, w)"
  by (simp add: thread_job_def should_skip_def file_exists_def)

lemma thread_job_gets:
  assumes "thread_job cfg net (nm, cells) reports w = (out, reports', w')"
  shows "gets (trace w') =
           gets (trace w) @ (if should_skip cfg w nm then []
                             else attempted cfg net (filter (\<lambda>x. str x \<noteq> ''nan'') cells))"
proof (cases "should_skip cfg w nm")
  case True
  with assms thread_job_skip[OF True, of net cells reports] show ?thesis by simp
next
  case False
  let ?links = "filter (\<lambda>x. str x \<noteq> ''nan'') cells"
  obtain o1 ex1 w1 where t: "try_links cfg net ?links [] w = (o1, ex1, w1)"
    by (cases "try_links cfg net ?links [] w") auto
  note e1 = try_links_effects[OF t]
  from False have ns: "\<not> (DOWNLOAD_ALL cfg = False \<and> file_exists cfg w nm)"
    by (auto simp: should_skip_def file_exists_def)
  show ?thesis
  proof (cases o1)
    case (Inl err)
    with assms t ns e1 False show ?thesis
      by (auto simp: thread_job_def gets_append gets_map_Get)
  next
    case (Inr win)
    show ?thesis
    proof (cases win)
      case None
      with assms t ns e1 False Inr show ?thesis
        by (auto simp: thread_job_def gets_append gets_map_Get)
    next
      case (Some r)
      obtain o2 w2 where sv: "save_file cfg r nm w1 = (o2, w2)"
        by (cases "save_file cfg r nm w1") auto
      note e2 = save_file_effects[OF sv]
      from assms t ns Inr Some sv have "w' = w2"
        by (auto simp: thread_job_def split: sum.splits)
      with e1 e2 False show ?thesis by (simp add: gets_append gets_map_Get)
    qed
  qed
qed

section \<open>Steps of a task\<close>

lemma parent_check_dirs:
  assumes "\<forall>q. files w' q = Some Dir \<longleftrightarrow> files w q = Some Dir"
  shows "parent_check w' p = None \<longleftrightarrow> parent_check w p = None"
proof -
  from assms have "files w' (dirname p) = Some Dir \<longleftrightarrow> files w (dirname p) = Some Dir"
    by blast
  then show ?thesis
    by (auto simp: parent_check_def Let_def split: option.splits node.splits)
qed

lemma writable_dirs:
  "\<forall>q. files w' q = Some Dir \<longleftrightarrow> files w q = Some Dir \<Longrightarrow> refused w' = refused w \<Longrightarrow>
     writable w' p \<longleftrightarrow> writable w p"
  using parent_check_dirs[of w' w p] by (simp add: writable_def)

text \<open>One step of a task.\<close>

lemma task_step_row: "task_step cfg net (row, ph) reports w = (t', reports', w') \<Longrightarrow> fst t' = row"
  by (cases "(cfg, net, (row, ph), reports, w)" rule: task_step.cases)
     (auto simp: Let_def split: if_splits sum.splits option.splits prod.splits)

lemma task_step_finished:
  "finished ph \<Longrightarrow> task_step cfg net (row, ph) reports w = ((row, ph), reports, w)"
  by (cases ph) simp_all

lemma task_step_names:
  "task_step cfg net (row, ph) reports w = ((row', ph'), reports', w') \<Longrightarrow>
     mset (map name reports') + mset (reported_names [(row, ph)]) =
     mset (map name reports) + mset (reported_names [(row', ph')])"
  by (cases "(cfg, net, (row, ph), reports, w)" rule: task_step.cases)
     (auto simp: Let_def reported_names_def add_to_report_def
           split: if_splits sum.splits option.splits prod.splits)

lemma task_step_steps_left:
  assumes "task_step cfg net (row, ph) reports w = (t', reports', w')"
  shows "steps_left t' \<le> steps_left (row, ph) - 1"
proof (cases ph)
  case Pending
  obtain nm cells where row: "row = (nm, cells)" by (cases row) auto
  have "length (filter (\<lambda>x. str x \<noteq> ''nan'') cells) \<le> length cells" by simp
  with assms Pending row show ?thesis by (auto split: if_splits)
next
  case (Resolving links res ex)
  with assms show ?thesis
    by (cases links) (auto simp: Let_def split: if_splits sum.splits option.splits)
qed (use assms in \<open>auto simp: Let_def split: if_splits sum.splits option.splits prod.splits\<close>)

lemma finished_steps_left: "finished ph \<longleftrightarrow> steps_left (row, ph) = 0"
  by (cases ph) simp_all

lemma task_step_world:
  assumes "task_step cfg net (row, ph) reports w = ((row', ph'), reports', w')"
    and "\<forall>r ex. ph = Moving r ex \<longrightarrow> files w (TEMP_DL_FOLDER cfg @ fst row @ ''.'' @ FILETYPE cfg) \<noteq> Some Dir"
  shows "(\<exists>evs. trace w' = trace w @ evs \<and> excel_writes evs = [])"
    and "\<forall>q. files w' q = Some Dir \<longleftrightarrow> files w q = Some Dir"
    and "\<forall>r ex. ph' = Moving r ex \<longrightarrow> files w' (TEMP_DL_FOLDER cfg @ fst row @ ''.'' @ FILETYPE cfg) \<noteq> Some Dir"
    and "ties w' = ties w"
    and "refused w' = refused w"
proof -
  let ?sp = "TEMP_DL_FOLDER cfg @ fst row @ ''.'' @ FILETYPE cfg"
  let ?fp = "DL_FOLDER cfg @ fst row @ ''.'' @ FILETYPE cfg"
  have all: "(\<exists>evs. trace w' = trace w @ evs \<and> excel_writes evs = []) \<and>
     (\<forall>q. files w' q = Some Dir \<longleftrightarrow> files w q = Some Dir) \<and>
     (\<forall>r ex. ph' = Moving r ex \<longrightarrow> files w' ?sp \<noteq> Some Dir) \<and> ties w' = ties w \<and>
     refused w' = refused w"
  proof (cases ph)
    case Pending
    with assms(1) show ?thesis by (cases row) (auto split: if_splits)
  next
    case (Resolving links res ex)
    with assms(1) show ?thesis
      by (cases links) (auto simp: Let_def split: if_splits sum.splits option.splits)
  next
    case (Saving r ex)
    let ?d = "if IS_BIN cfg then Binary (content r) else Textual (encoding r) (body_text r)"
    obtain o1 w1 where ow: "open_write ?sp ?d w = (o1, w1)" by (cases "open_write ?sp ?d w") auto
    note e = open_write_effects[OF ow]
    from assms(1) Saving ow have w': "w' = w1" and ph': "ph' = (case o1 of Inl err \<Rightarrow> Raised err | Inr u \<Rightarrow> Moving r ex)"
      by (auto simp: Let_def split: if_splits sum.splits)
    show ?thesis
    proof (cases o1)
      case (Inl err)
      with e w' ph' show ?thesis by auto
    next
      case (Inr u)
      with e have "\<exists>bs. files w1 ?sp = Some (File (Bytes bs))" by simp
      then have "files w1 ?sp \<noteq> Some Dir" by auto
      with e w' show ?thesis by auto
    qed
  next
    case (Moving r ex)
    with assms(2) have nd: "files w ?sp \<noteq> Some Dir" by simp
    show ?thesis
    proof (cases "os_replace ?sp ?fp w")
      case (Inl err)
      with assms(1) Moving show ?thesis by (auto simp: Let_def)
    next
      case (Inr w2)
      with assms(1) Moving have "w' = w2" and "ph' = Reporting True (Some r) ex"
        by (auto simp: Let_def)
      with os_replace_effects[OF Inr nd] show ?thesis by auto
    qed
  next
    case (Reporting succ resp ex)
    with assms(1) show ?thesis by auto
  next
    case Skipped
    with assms(1) show ?thesis by auto
  next
    case Reported
    with assms(1) show ?thesis by auto
  next
    case (Raised err)
    with assms(1) show ?thesis by auto
  qed
  from all show "\<exists>evs. trace w' = trace w @ evs \<and> excel_writes evs = []" by blast
  from all show "\<forall>q. files w' q = Some Dir \<longleftrightarrow> files w q = Some Dir" by blast
  from all show "\<forall>r ex. ph' = Moving r ex \<longrightarrow> files w' ?sp \<noteq> Some Dir" by blast
  from all show "ties w' = ties w" by blast
  from all show "refused w' = refused w" by blast
qed


section \<open>Runs of the pool\<close>

lemma reported_names_update:
  assumes "i < length ts"
  shows "mset (reported_names (ts[i := t'])) + mset (reported_names [ts ! i]) =
         mset (reported_names ts) + mset (reported_names [t'])"
proof -
  have a: "ts[i := t'] = take i ts @ t' # drop (Suc i) ts"
    using assms by (rule upd_conv_take_nth_drop)
  have b: "reported_names ts = reported_names (take i ts @ ts ! i # drop (Suc i) ts)"
    using id_take_nth_drop[OF assms] by simp
  show ?thesis unfolding a b by (simp add: reported_names_def)
qed

lemma step_worker:
  assumes i: "i < length (futures st)"
    and ts: "task_step cfg net (futures st ! i) (collected st) (env st) = (t', reports', w')"
  shows "step cfg net (Worker i) st = st\<lparr>futures := (futures st)[i := t'], collected := reports', env := w'\<rparr>"
  using assms by simp

lemma step_worker_facts:
  assumes ok: "staged_ok cfg st"
  shows "main_done (step cfg net (Worker i) st) = main_done st"
    and "map fst (futures (step cfg net (Worker i) st)) = map fst (futures st)"
    and "staged_ok cfg (step cfg net (Worker i) st)"
    and "\<forall>q. files (env (step cfg net (Worker i) st)) q = Some Dir \<longleftrightarrow> files (env st) q = Some Dir"
    and "\<exists>evs. trace (env (step cfg net (Worker i) st)) = trace (env st) @ evs \<and> excel_writes evs = []"
    and "mset (map name (collected (step cfg net (Worker i) st))) + mset (reported_names (futures st)) =
         mset (map name (collected st)) + mset (reported_names (futures (step cfg net (Worker i) st)))"
    and "ties (env (step cfg net (Worker i) st)) = ties (env st)"
    and "refused (env (step cfg net (Worker i) st)) = refused (env st)"
proof -
  let ?st' = "step cfg net (Worker i) st"
  have all: "main_done ?st' = main_done st \<and> map fst (futures ?st') = map fst (futures st) \<and>
     staged_ok cfg ?st' \<and>
     (\<forall>q. files (env ?st') q = Some Dir \<longleftrightarrow> files (env st) q = Some Dir) \<and>
     (\<exists>evs. trace (env ?st') = trace (env st) @ evs \<and> excel_writes evs = []) \<and>
     mset (map name (collected ?st')) + mset (reported_names (futures st)) =
       mset (map name (collected st)) + mset (reported_names (futures ?st')) \<and>
     ties (env ?st') = ties (env st) \<and> refused (env ?st') = refused (env st)"
  proof (cases "i < length (futures st)")
    case False
    with ok show ?thesis by simp
  next
    case True
    obtain row ph where t: "futures st ! i = (row, ph)" by (cases "futures st ! i") auto
    obtain t' reports' w' where
      ts: "task_step cfg net (row, ph) (collected st) (env st) = (t', reports', w')"
      by (cases "task_step cfg net (row, ph) (collected st) (env st)") auto
    obtain row' ph' where t': "t' = (row', ph')" by (cases t') auto
    from task_step_row[OF ts] t' have row': "row' = row" by simp
    from True t have mem: "(row, ph) \<in> set (futures st)" by (metis nth_mem)
    from ok mem have pre: "\<forall>r ex. ph = Moving r ex \<longrightarrow>
        files (env st) (TEMP_DL_FOLDER cfg @ fst row @ ''.'' @ FILETYPE cfg) \<noteq> Some Dir"
      by (auto simp: staged_ok_def)
    note w = task_step_world[OF ts[unfolded t' row'] pre]
    have st': "?st' = st\<lparr>futures := (futures st)[i := (row, ph')], collected := reports', env := w'\<rparr>"
      using True t ts t' row' by simp
    have m: "main_done ?st' = main_done st" unfolding st' by simp
    have f: "map fst (futures ?st') = map fst (futures st)"
      unfolding st' using True t by (simp add: map_update list_update_same_conv)
    have d: "\<forall>q. files (env ?st') q = Some Dir \<longleftrightarrow> files (env st) q = Some Dir"
      unfolding st' using w(2) by simp
    have e: "\<exists>evs. trace (env ?st') = trace (env st) @ evs \<and> excel_writes evs = []"
      unfolding st' using w(1) by simp
    have ti: "ties (env ?st') = ties (env st)" unfolding st' using w(4) by simp
    have rf: "refused (env ?st') = refused (env st)" unfolding st' using w(5) by simp
    have n: "mset (map name (collected ?st')) + mset (reported_names (futures st)) =
       mset (map name (collected st)) + mset (reported_names (futures ?st'))"
    proof -
      from task_step_names[OF ts[unfolded t' row']]
      have a: "mset (map name reports') + mset (reported_names [(row, ph)]) =
               mset (map name (collected st)) + mset (reported_names [(row, ph')])" .
      from reported_names_update[OF True, of "(row, ph')"] t
      have b: "mset (reported_names ((futures st)[i := (row, ph')])) + mset (reported_names [(row, ph)]) =
               mset (reported_names (futures st)) + mset (reported_names [(row, ph')])" by simp
      have "mset (map name reports') + mset (reported_names (futures st)) + mset (reported_names [(row, ph')])
            + mset (reported_names [(row, ph)]) =
            mset (map name (collected st)) + mset (reported_names ((futures st)[i := (row, ph')]))
            + mset (reported_names [(row, ph')]) + mset (reported_names [(row, ph)])"
        using a b by (simp add: ac_simps)
      then show ?thesis unfolding st' by simp
    qed
    have s: "staged_ok cfg ?st'"
      unfolding staged_ok_def
    proof (intro ballI allI impI)
      fix t r ex
      assume tin: "t \<in> set (futures ?st')" and mv: "snd t = Moving r ex"
      from tin have "t \<in> set ((futures st)[i := (row, ph')])" unfolding st' by simp
      then have "t = (row, ph') \<or> t \<in> set (futures st)"
        using set_update_subset_insert[of "futures st" i "(row, ph')"] by auto
      then show "files (env ?st') (TEMP_DL_FOLDER cfg @ fst (fst t) @ ''.'' @ FILETYPE cfg) \<noteq> Some Dir"
      proof
        assume "t = (row, ph')"
        with mv w(3) show ?thesis unfolding st' by simp
      next
        assume "t \<in> set (futures st)"
        with ok mv have "files (env st) (TEMP_DL_FOLDER cfg @ fst (fst t) @ ''.'' @ FILETYPE cfg) \<noteq> Some Dir"
          by (auto simp: staged_ok_def)
        with d show ?thesis by simp
      qed
    qed
    from m f s d e n ti rf show ?thesis by blast
  qed
  from all show "main_done ?st' = main_done st" by blast
  from all show "map fst (futures ?st') = map fst (futures st)" by blast
  from all show "staged_ok cfg ?st'" by blast
  from all show "\<forall>q. files (env ?st') q = Some Dir \<longleftrightarrow> files (env st) q = Some Dir" by blast
  from all show "\<exists>evs. trace (env ?st') = trace (env st) @ evs \<and> excel_writes evs = []" by blast
  from all show "mset (map name (collected ?st')) + mset (reported_names (futures st)) =
         mset (map name (collected st)) + mset (reported_names (futures ?st'))" by blast
  from all show "ties (env ?st') = ties (env st)" by blast
  from all show "refused (env ?st') = refused (env st)" by blast
qed

lemma step_worker_drained:
  assumes "list_all (\<lambda>t. finished (snd t)) (futures st)"
  shows "step cfg net (Worker i) st = st"
proof (cases "i < length (futures st)")
  case False
  then show ?thesis by simp
next
  case True
  obtain row ph where t: "futures st ! i = (row, ph)" by (cases "futures st ! i") auto
  from assms True t have "finished ph" by (auto simp: list_all_length)
  from task_step_finished[OF this, of cfg net row "collected st" "env st"] True t
  show ?thesis by (simp add: list_update_same_conv)
qed

lemma run_written:
  assumes "main_done st \<noteq> None" and "list_all (\<lambda>t. finished (snd t)) (futures st)"
  shows "run cfg net sched st = st"
  using assms
proof (induction sched)
  case Nil
  then show ?case by simp
next
  case (Cons a sched)
  have "step cfg net a st = st"
  proof (cases a)
    case (Worker i)
    with step_worker_drained[OF Cons.prems(2)] show ?thesis by simp
  next
    case MainThread
    with Cons.prems(1) show ?thesis by auto
  qed
  with Cons show ?case by simp
qed

lemma run_append: "run cfg net (xs @ ys) st = run cfg net ys (run cfg net xs st)"
  by (induction xs arbitrary: st) simp_all

lemma step_main_done: "main_done st \<noteq> None \<Longrightarrow> main_done (step cfg net a st) = main_done st"
  by (cases a) (auto split: prod.splits)

lemma run_main_done: "main_done st \<noteq> None \<Longrightarrow> main_done (run cfg net sched st) = main_done st"
  by (induction sched arbitrary: st) (simp_all add: step_main_done)

lemma step_futures_length: "length (futures (step cfg net a st)) = length (futures st)"
  by (cases a) (auto split: prod.splits)

lemma run_futures_length: "length (futures (run cfg net sched st)) = length (futures st)"
  by (induction sched arbitrary: st) (simp_all add: step_futures_length)

lemma step_steps_left:
  assumes "i < length (futures st)"
  shows "steps_left (futures (step cfg net a st) ! i) \<le>
           steps_left (futures st ! i) - (if a = Worker i then 1 else 0)"
proof (cases a)
  case MainThread
  then show ?thesis by (auto split: prod.splits)
next
  case (Worker j)
  show ?thesis
  proof (cases "j < length (futures st)")
    case False
    with Worker assms show ?thesis by auto
  next
    case True
    obtain row ph where t: "futures st ! j = (row, ph)" by (cases "futures st ! j") auto
    obtain t' reports' w' where
      ts: "task_step cfg net (row, ph) (collected st) (env st) = (t', reports', w')"
      by (cases "task_step cfg net (row, ph) (collected st) (env st)") auto
    have st': "step cfg net (Worker j) st =
        st\<lparr>futures := (futures st)[j := t'], collected := reports', env := w'\<rparr>"
      using True t ts by simp
    show ?thesis
    proof (cases "j = i")
      case True
      with task_step_steps_left[OF ts] t Worker assms show ?thesis unfolding Worker st' by simp
    next
      case False
      with Worker assms show ?thesis unfolding Worker st' by simp
    qed
  qed
qed

lemma run_steps_left:
  "i < length (futures st) \<Longrightarrow>
     steps_left (futures (run cfg net sched st) ! i) \<le>
       steps_left (futures st ! i) - count_list sched (Worker i)"
proof (induction sched arbitrary: st)
  case Nil
  then show ?case by simp
next
  case (Cons a sched)
  let ?st1 = "step cfg net a st"
  from Cons.prems have i1: "i < length (futures ?st1)" by (simp add: step_futures_length)
  from Cons.IH[OF i1] step_steps_left[OF Cons.prems, of cfg net a]
  show ?case by (auto split: if_splits)
qed

lemma enough_drains:
  assumes "enough sched data"
  shows "list_all (\<lambda>t. finished (snd t)) (futures (main cfg net data sched w))"
proof -
  let ?init = "\<lparr>futures = map (\<lambda>row. (row, Pending)) data, collected = [], env = w, main_done = None\<rparr>"
  have len: "length (futures (run cfg net sched ?init)) = length data"
    by (simp add: run_futures_length)
  have "finished (snd (futures (run cfg net sched ?init) ! i))" if i: "i < length data" for i
  proof -
    from assms i have c: "length (snd (data ! i)) + 5 \<le> count_list sched (Worker i)"
      by (simp add: enough_def list_all_iff)
    from i have "i < length (futures ?init)" by simp
    from run_steps_left[OF this, of cfg net sched] i c
    have "steps_left (futures (run cfg net sched ?init) ! i) = 0" by simp
    then show ?thesis
      using finished_steps_left[of "snd (futures (run cfg net sched ?init) ! i)"
          "fst (futures (run cfg net sched ?init) ! i)"] by simp
  qed
  with len show ?thesis by (simp add: main_def list_all_length)
qed

lemma swap_all_mset: "mset (swap_all ps xs) = mset xs"
proof (induction ps arbitrary: xs)
  case Nil
  then show ?case by simp
next
  case (Cons p ps)
  obtain i j where p: "p = (i, j)" by (cases p) auto
  show ?case unfolding p by (simp add: Cons.IH mset_swap)
qed

lemma sort_values_sorted: "sorted (map name (sort_values w df))"
  by (simp add: sort_values_def)

lemma sort_values_mset: "mset (sort_values w df) = mset df"
  by (simp add: sort_values_def swap_all_mset)

lemma concat_sort_sorted:
  "sorted (map name df) \<Longrightarrow> sorted (map name (concat_sort w df reports))"
  by (induction reports arbitrary: df) (simp_all add: sort_values_sorted)

lemma concat_sort_mset: "mset (concat_sort w df reports) = mset df + mset reports"
  by (induction reports arbitrary: df) (simp_all add: sort_values_mset)

lemma step_names:
  assumes "staged_ok cfg st"
    and "mset (map name (collected st)) = mset (reported_names (futures st))"
  shows "mset (map name (collected (step cfg net a st))) =
         mset (reported_names (futures (step cfg net a st)))"
proof (cases a)
  case (Worker i)
  from step_worker_facts(6)[OF assms(1), where net = net and i = i] assms(2) show ?thesis
    unfolding Worker by simp
next
  case MainThread
  with assms(2) show ?thesis by (auto split: prod.splits)
qed

lemma step_staged_ok:
  assumes "staged_ok cfg st"
  shows "staged_ok cfg (step cfg net a st)"
proof (cases a)
  case (Worker i)
  with step_worker_facts(3)[OF assms, where net = net and i = i] show ?thesis by simp
next
  case MainThread
  show ?thesis
  proof (cases "main_done st = None \<and> list_all (\<lambda>t. finished (snd t)) (futures st)")
    case False
    with MainThread assms show ?thesis by auto
  next
    case True
    then have "\<forall>t \<in> set (futures st). finished (snd t)" by (simp add: list_all_iff)
    then have "\<forall>t \<in> set (futures st). \<forall>r ex. snd t \<noteq> Moving r ex" by auto
    with MainThread True show ?thesis
      by (auto simp: staged_ok_def split: prod.splits)
  qed
qed

lemma step_rows: "map fst (futures (step cfg net a st)) = map fst (futures st)"
proof (cases a)
  case MainThread
  then show ?thesis by (auto split: prod.splits)
next
  case (Worker i)
  show ?thesis
  proof (cases "i < length (futures st)")
    case False
    with Worker show ?thesis by simp
  next
    case True
    obtain row ph where t: "futures st ! i = (row, ph)" by (cases "futures st ! i") auto
    obtain t' reports' w' where
      ts: "task_step cfg net (row, ph) (collected st) (env st) = (t', reports', w')"
      by (cases "task_step cfg net (row, ph) (collected st) (env st)") auto
    from task_step_row[OF ts] True t ts Worker show ?thesis
      by (simp add: map_update list_update_same_conv)
  qed
qed

lemma run_invariants:
  assumes "staged_ok cfg st"
    and "mset (map name (collected st)) = mset (reported_names (futures st))"
  shows "staged_ok cfg (run cfg net sched st) \<and>
         mset (map name (collected (run cfg net sched st))) =
           mset (reported_names (futures (run cfg net sched st))) \<and>
         map fst (futures (run cfg net sched st)) = map fst (futures st)"
  using assms
proof (induction sched arbitrary: st)
  case Nil
  then show ?case by simp
next
  case (Cons a sched)
  from Cons.IH[OF step_staged_ok[OF Cons.prems(1)] step_names[OF Cons.prems]]
  show ?case by (simp add: step_rows)
qed


text \<open>The run up to the write of the report, and the write.\<close>

lemma write_report_writable:
  assumes "writable w (REPORT_FILE cfg)"
  shows "write_report cfg reports w =
           (Inr (), w\<lparr>files := (files w)(REPORT_FILE cfg \<mapsto> File (Sheet (concat_sort w [] reports))),
                      trace := trace w @ [ToExcel (REPORT_FILE cfg) (concat_sort w [] reports)]\<rparr>)"
  using assms by (simp add: write_report_def writable_def Let_def)

lemma run_report:
  assumes "main_done st = None" and "staged_ok cfg st" and "writable (env st) (REPORT_FILE cfg)"
  shows "(main_done (run cfg net sched st) = None \<longrightarrow>
            (\<exists>evs. trace (env (run cfg net sched st)) = trace (env st) @ evs \<and> excel_writes evs = [])) \<and>
         (main_done (run cfg net sched st) \<noteq> None \<longrightarrow>
            main_done (run cfg net sched st) = Some (Inr ()) \<and>
            list_all (\<lambda>t. finished (snd t)) (futures (run cfg net sched st)) \<and>
            (\<exists>evs df.
               trace (env (run cfg net sched st)) = trace (env st) @ evs @ [ToExcel (REPORT_FILE cfg) df] \<and>
               excel_writes evs = [] \<and> sorted (map name df) \<and>
               mset df = mset (collected (run cfg net sched st)) \<and>
               files (env (run cfg net sched st)) (REPORT_FILE cfg) = Some (File (Sheet df))))"
  using assms
proof (induction sched arbitrary: st)
  case Nil
  then show ?case by simp
next
  case (Cons a sched)
  show ?case
  proof (cases a)
    case (Worker i)
    let ?st1 = "step cfg net (Worker i) st"
    note f = step_worker_facts[OF Cons.prems(2), where net = net and i = i]
    from f(1) Cons.prems(1) have m1: "main_done ?st1 = None" by simp
    from f(4) f(8) Cons.prems(3) have w1: "writable (env ?st1) (REPORT_FILE cfg)"
      using writable_dirs[of "env ?st1" "env st" "REPORT_FILE cfg"] by simp
    from f(5) obtain evs1 where
      t1: "trace (env ?st1) = trace (env st) @ evs1" and x1: "excel_writes evs1 = []" by blast
    note ih = Cons.IH[OF m1 f(3) w1]
    have r: "run cfg net (a # sched) st = run cfg net sched ?st1" using Worker by simp
    show ?thesis unfolding r
    proof (intro conjI impI)
      assume "main_done (run cfg net sched ?st1) = None"
      with ih obtain evs where "trace (env (run cfg net sched ?st1)) = trace (env ?st1) @ evs"
        and "excel_writes evs = []" by blast
      with t1 x1 have "trace (env (run cfg net sched ?st1)) = trace (env st) @ (evs1 @ evs) \<and>
          excel_writes (evs1 @ evs) = []" by (simp add: excel_writes_append)
      then show "\<exists>evs. trace (env (run cfg net sched ?st1)) = trace (env st) @ evs \<and>
          excel_writes evs = []" by blast
    next
      assume d: "main_done (run cfg net sched ?st1) \<noteq> None"
      with ih show "main_done (run cfg net sched ?st1) = Some (Inr ())" by blast
      from d ih show "list_all (\<lambda>t. finished (snd t)) (futures (run cfg net sched ?st1))" by blast
      from d ih obtain evs df where
        "trace (env (run cfg net sched ?st1)) = trace (env ?st1) @ evs @ [ToExcel (REPORT_FILE cfg) df]"
        and "excel_writes evs = []" and s: "sorted (map name df)"
        and m: "mset df = mset (collected (run cfg net sched ?st1))"
        and fl: "files (env (run cfg net sched ?st1)) (REPORT_FILE cfg) = Some (File (Sheet df))"
        by blast
      with t1 x1 have "trace (env (run cfg net sched ?st1)) =
            trace (env st) @ (evs1 @ evs) @ [ToExcel (REPORT_FILE cfg) df] \<and>
          excel_writes (evs1 @ evs) = []" by (simp add: excel_writes_append)
      with s m fl show "\<exists>evs df.
               trace (env (run cfg net sched ?st1)) = trace (env st) @ evs @ [ToExcel (REPORT_FILE cfg) df] \<and>
               excel_writes evs = [] \<and> sorted (map name df) \<and>
               mset df = mset (collected (run cfg net sched ?st1)) \<and>
               files (env (run cfg net sched ?st1)) (REPORT_FILE cfg) = Some (File (Sheet df))"
        by blast
    qed
  next
    case MainThread
    show ?thesis
    proof (cases "list_all (\<lambda>t. finished (snd t)) (futures st)")
      case False
      with MainThread have "run cfg net (a # sched) st = run cfg net sched st" by simp
      with Cons.IH[OF Cons.prems] show ?thesis by simp
    next
      case True
      let ?df = "concat_sort (env st) [] (collected st)"
      let ?st1 = "st\<lparr>env := (env st)\<lparr>files := (files (env st))(REPORT_FILE cfg \<mapsto> File (Sheet ?df)),
                                     trace := trace (env st) @ [ToExcel (REPORT_FILE cfg) ?df]\<rparr>,
                     main_done := Some (Inr ())\<rparr>"
      from MainThread True Cons.prems(1) write_report_writable[OF Cons.prems(3), of "collected st"]
      have s1: "step cfg net a st = ?st1" by simp
      have "run cfg net sched ?st1 = ?st1"
        by (rule run_written) (use True in simp_all)
      with s1 have r: "run cfg net (a # sched) st = ?st1" by simp
      have "sorted (map name ?df)" by (rule concat_sort_sorted) simp
      moreover have "mset ?df = mset (collected st)" by (simp add: concat_sort_mset)
      moreover have "trace (env ?st1) = trace (env st) @ [] @ [ToExcel (REPORT_FILE cfg) ?df]" by simp
      moreover have "excel_writes [] = []" by simp
      moreover have "files (env ?st1) (REPORT_FILE cfg) = Some (File (Sheet ?df))" by simp
      ultimately have "\<exists>evs df.
               trace (env ?st1) = trace (env st) @ evs @ [ToExcel (REPORT_FILE cfg) df] \<and>
               excel_writes evs = [] \<and> sorted (map name df) \<and>
               mset df = mset (collected ?st1) \<and>
               files (env ?st1) (REPORT_FILE cfg) = Some (File (Sheet df))"
        by (intro exI[of _ "[]"] exI[of _ ?df]) simp
      with True show ?thesis unfolding r by simp
    qed
  qed
qed

lemma run_reaches_write:
  assumes "main_done st = None" and "staged_ok cfg st" and "writable (env st) (REPORT_FILE cfg)"
    and "list_all (\<lambda>t. finished (snd t)) (futures (run cfg net pre st))"
  shows "main_done (run cfg net (pre @ MainThread # post) st) \<noteq> None"
proof -
  let ?s = "run cfg net pre st"
  have "main_done (step cfg net MainThread ?s) \<noteq> None"
    using assms(4) by (cases "main_done ?s") (auto split: prod.splits)
  from run_main_done[OF this, of cfg net post] this show ?thesis
    by (simp add: run_append)
qed

lemma initial_pool:
  "staged_ok cfg \<lparr>futures = map (\<lambda>row. (row, Pending)) data, collected = [], env = w, main_done = None\<rparr>"
  "mset (map name (collected \<lparr>futures = map (\<lambda>row. (row, Pending)) data, collected = [], env = w, main_done = None\<rparr>)) =
   mset (reported_names (futures \<lparr>futures = map (\<lambda>row. (row, Pending)) data, collected = [], env = w, main_done = None\<rparr>))"
  by (auto simp: staged_ok_def reported_names_def)

section \<open>A task on its own\<close>

text \<open>A task that runs alone does what \<open>thread_job\<close> does.\<close>

lemma task_run_finished:
  "finished ph \<Longrightarrow> task_run n cfg net (row, ph) reports w = ((row, ph), reports, w)"
  by (induction n) (simp_all add: task_step_finished)

lemma task_run_add:
  "task_run (m + n) cfg net t reports w =
     (case task_run m cfg net t reports w of (t1, r1, w1) \<Rightarrow> task_run n cfg net t1 r1 w1)"
  by (induction m arbitrary: t reports w) (auto split: prod.splits)

lemma resolving_run:
  "task_run (length links) cfg net (row, Resolving links res excs) reports w =
     (case try_links_loop cfg net links res excs w of
        (Inl err, excs', w') \<Rightarrow> ((row, Raised err), reports, w')
      | (Inr res', excs', w') \<Rightarrow> ((row, Resolving [] res' excs'), reports, w'))"
proof (induction links arbitrary: res excs w)
  case Nil
  then show ?case by simp
next
  case (Cons u links)
  show ?case
  proof (cases "net u (TIMEOUT cfg)")
    case (Inl e)
    with Cons.IH show ?thesis by (simp add: Let_def)
  next
    case (Inr r)
    show ?thesis
    proof (cases "status_code r = 200")
      case False
      with Inr Cons.IH show ?thesis by (simp add: Let_def)
    next
      case True
      show ?thesis
      proof (cases "is_correct_filetype cfg r")
        case (Inl err)
        with Inr True show ?thesis by (simp add: Let_def task_run_finished)
      next
        case ok: (Inr b)
        with Inr True Cons.IH show ?thesis by (simp add: Let_def)
      qed
    qed
  qed
qed

lemma task_run_4_resolved:
  "task_run 4 cfg net ((nm, cells), Resolving [] res excs) reports w =
     (case res of
        None \<Rightarrow> (((nm, cells), Reported), add_to_report reports nm False None excs, w)
      | Some r \<Rightarrow>
          (case save_file cfg r nm w of
             (Inl err, w2) \<Rightarrow> (((nm, cells), Raised err), reports, w2)
           | (Inr u, w2) \<Rightarrow> (((nm, cells), Reported), add_to_report reports nm True (Some r) excs, w2)))"
proof -
  have 4: "(4::nat) = Suc (Suc (Suc (Suc 0)))" by simp
  show ?thesis unfolding 4
    by (auto simp: save_file_def Let_def split: option.splits prod.splits sum.splits)
qed

lemma thread_job_task_run:
  assumes "task_run (length (snd (unpack_input row)) + 5) cfg net (row, Pending) reports w =
             ((row', ph), reports', w')"
  shows "row' = row \<and> finished ph \<and> thread_job cfg net row reports w = (outcome ph, reports', w')"
proof -
  obtain nm cells where row: "row = (nm, cells)" by (cases row) auto
  let ?links = "filter (\<lambda>x. str x \<noteq> ''nan'') cells"
  define k where "k = length ?links + 4"
  have n: "length ?links + 5 = Suc k" by (simp add: k_def)
  from assms have a0:
    "task_run (Suc k) cfg net ((nm, cells), Pending) reports w = ((row', ph), reports', w')"
    unfolding row by (simp only: unpack_input.simps snd_conv n)
  show ?thesis
  proof (cases "DOWNLOAD_ALL cfg = False \<and> file_exists cfg w nm")
    case True
    with a0 show ?thesis
      unfolding row by (auto simp: task_run_finished thread_job_def)
  next
    case False
    obtain o1 ex1 w1 where t: "try_links_loop cfg net ?links None [] w = (o1, ex1, w1)"
      by (cases "try_links_loop cfg net ?links None [] w") auto
    from False a0 have "task_run k cfg net ((nm, cells), Resolving ?links None []) reports w =
         ((row', ph), reports', w')"
      by (auto split: if_splits)
    then have a: "(case task_run (length ?links) cfg net ((nm, cells), Resolving ?links None []) reports w of
         (t1, r1, w1) \<Rightarrow> task_run 4 cfg net t1 r1 w1) = ((row', ph), reports', w')"
      unfolding k_def task_run_add .
    show ?thesis
    proof (cases o1)
      case (Inl err)
      with a t False row show ?thesis
        by (auto simp: resolving_run task_run_finished thread_job_def try_links_def)
    next
      case (Inr res)
      with a t have b: "task_run 4 cfg net ((nm, cells), Resolving [] res ex1) reports w1 =
          ((row', ph), reports', w')"
        by (simp add: resolving_run)
      show ?thesis
      proof (cases res)
        case None
        with b t Inr False row show ?thesis
          by (auto simp: task_run_4_resolved thread_job_def try_links_def)
      next
        case (Some r)
        obtain o2 w2 where sv: "save_file cfg r nm w1 = (o2, w2)"
          by (cases "save_file cfg r nm w1") auto
        with b t Inr False row Some show ?thesis
          by (cases o2) (auto simp: task_run_4_resolved thread_job_def try_links_def)
      qed
    qed
  qed
qed

section \<open>Facts of the concrete setting\<close>

lemma jpeg_in_image_jpeg: "sublist ''jpeg'' ''image/jpeg''"
  by code_simp

lemma jpeg_not_in_text_html: "\<not> sublist ''jpeg'' ''text/html''"
  by code_simp

lemma html_in_text_html: "sublist ''html'' ''text/html''"
  by code_simp

lemmas ex_defs = settings_jpeg_def settings_html_def example_net_def example_world_def
  example_encoder_def jpeg_response_def html_response_def bare_response_def

lemmas run_defs = thread_job_def try_links_def is_correct_filetype_def save_file_def
  open_write_def os_replace_def add_to_report_def file_exists_def isfile_def Let_def
  parent_check_def dirname_def
  jpeg_in_image_jpeg jpeg_not_in_text_html html_in_text_html

lemmas pool_defs = main_def write_report_def sort_values_def should_skip_def

section \<open>The claims\<close>

subsection \<open>C1: one report per row\<close>




subsection \<open>C2: the last accepted candidate wins\<close>

text \<open>
  Claim C2 says that for every list of candidates the resolver returns the last one
  whose response passes the acceptance check. On the list \<open>[A, D]\<close> it does not return:
  \<open>A\<close> is accepted, and the check of \<open>D\<close>, a response of status 200 without a
  \<open>content-type\<close> header, raises \<open>KeyError\<close> outside the handler of the loop. (On a list
  without such a response the last accepted candidate is returned, as
  \<open>try_links_last_wins\<close>, \<open>winner_last\<close> and \<open>try_links_A_B_C\<close> show.)
\<close>

theorem resolver_raises_after_accepted:
  "example_net (PStr ''A'') (TIMEOUT settings_jpeg) = Inr (jpeg_response ''A'') \<and>
   accepted settings_jpeg (jpeg_response ''A'') \<and>
   fst (try_links settings_jpeg example_net [PStr ''A'', PStr ''D''] [] example_world) =
     Inl (KeyError ''content-type'')"
  by (simp add: ex_defs run_defs accepted_def)

subsection \<open>C3: the Existence Gate\<close>

text \<open>
  Claim C3: when \<open>do_download_all\<close> is off and the file \<open>name.filetype\<close> is in the download
  folder, the task returns at once, with the reports and the world as they were, so
  without a request; in every other case the resolver runs on the links of the row, and
  the requests of the task are those of the resolver: the links in order (up to one
  whose check raises).
\<close>

theorem gate_decides_fetch:
  assumes "thread_job cfg net (nm, cells) reports w = (out, reports', w')"
  shows "(DOWNLOAD_ALL cfg = False \<and> isfile w (DL_FOLDER cfg @ nm @ ''.'' @ FILETYPE cfg) \<longrightarrow>
            out = Inr () \<and> reports' = reports \<and> w' = w) \<and>
         (\<not> (DOWNLOAD_ALL cfg = False \<and> isfile w (DL_FOLDER cfg @ nm @ ''.'' @ FILETYPE cfg)) \<longrightarrow>
            (\<exists>o1 excs w1.
               try_links cfg net (filter (\<lambda>x. str x \<noteq> ''nan'') cells) [] w = (o1, excs, w1) \<and>
               gets (trace w') = gets (trace w1)) \<and>
            gets (trace w') =
              gets (trace w) @ attempted cfg net (filter (\<lambda>x. str x \<noteq> ''nan'') cells))"
proof (intro conjI impI)
  assume "DOWNLOAD_ALL cfg = False \<and> isfile w (DL_FOLDER cfg @ nm @ ''.'' @ FILETYPE cfg)"
  then have "should_skip cfg w nm" by (simp add: should_skip_def)
  from thread_job_skip[OF this, of net cells reports] assms
  show "out = Inr ()" and "reports' = reports" and "w' = w" by simp_all
next
  assume "\<not> (DOWNLOAD_ALL cfg = False \<and> isfile w (DL_FOLDER cfg @ nm @ ''.'' @ FILETYPE cfg))"
  then have ns: "\<not> should_skip cfg w nm" by (simp add: should_skip_def)
  from thread_job_gets[OF assms] ns
  show g: "gets (trace w') =
              gets (trace w) @ attempted cfg net (filter (\<lambda>x. str x \<noteq> ''nan'') cells)"
    by simp
  obtain o1 excs w1 where
    t: "try_links cfg net (filter (\<lambda>x. str x \<noteq> ''nan'') cells) [] w = (o1, excs, w1)"
    by (cases "try_links cfg net (filter (\<lambda>x. str x \<noteq> ''nan'') cells) [] w") auto
  from try_links_effects[OF t] g have "gets (trace w') = gets (trace w1)"
    by (simp add: gets_append gets_map_Get)
  with t show "\<exists>o1 excs w1.
               try_links cfg net (filter (\<lambda>x. str x \<noteq> ''nan'') cells) [] w = (o1, excs, w1) \<and>
               gets (trace w') = gets (trace w1)" by blast
qed

theorem gate_decides_fetch_witness:
  "thread_job (settings_jpeg\<lparr>DOWNLOAD_ALL := False\<rparr>) example_net (''old'', [PStr ''A'']) [] example_world =
     (Inr (), [], example_world) \<and>
   isfile example_world (DL_FOLDER settings_jpeg @ ''old'' @ ''.'' @ FILETYPE settings_jpeg) \<and>
   \<not> isfile example_world (DL_FOLDER settings_jpeg @ ''new'' @ ''.'' @ FILETYPE settings_jpeg) \<and>
   gets (trace (snd (snd (thread_job (settings_jpeg\<lparr>DOWNLOAD_ALL := False\<rparr>) example_net
                            (''new'', [PStr ''B'', PNaN, PStr ''C'']) [] example_world)))) =
     [PStr ''B'', PStr ''C'']"
proof -
  let ?cfg = "settings_jpeg\<lparr>DOWNLOAD_ALL := False\<rparr>"
  let ?t = "thread_job ?cfg example_net (''new'', [PStr ''B'', PNaN, PStr ''C'']) [] example_world"
  have f1: "isfile example_world (DL_FOLDER settings_jpeg @ ''old'' @ ''.'' @ FILETYPE settings_jpeg)"
    by (simp add: isfile_def ex_defs)
  have f2: "\<not> isfile example_world (DL_FOLDER settings_jpeg @ ''new'' @ ''.'' @ FILETYPE settings_jpeg)"
    by (simp add: isfile_def ex_defs)
  obtain out reports' w' where
    t1: "thread_job ?cfg example_net (''old'', [PStr ''A'']) [] example_world = (out, reports', w')"
    by (cases "thread_job ?cfg example_net (''old'', [PStr ''A'']) [] example_world") auto
  from gate_decides_fetch[OF t1] f1 have "out = Inr () \<and> reports' = [] \<and> w' = example_world"
    by (simp add: settings_jpeg_def)
  with t1 have skip: "thread_job ?cfg example_net (''old'', [PStr ''A'']) [] example_world =
     (Inr (), [], example_world)" by simp
  have t2: "?t = (fst ?t, fst (snd ?t), snd (snd ?t))" by simp
  from gate_decides_fetch[OF t2] f2
  have "gets (trace (snd (snd ?t))) =
          gets (trace example_world) @
          attempted ?cfg example_net (filter (\<lambda>x. str x \<noteq> ''nan'') [PStr ''B'', PNaN, PStr ''C''])"
    by (simp add: settings_jpeg_def)
  then have "gets (trace (snd (snd ?t))) = [PStr ''B'', PStr ''C'']"
    by (simp add: check_raises_def ex_defs)
  with skip f1 f2 show ?thesis by simp
qed

subsection \<open>C4: staging, then one rename\<close>




subsection \<open>C5: the report is written once, sorted\<close>

text \<open>
  Claim C5, in whatever order the threads take their turns (the report path being one
  where a file can be written, which \<open>test_settings\<close> has made sure of before the rows
  are touched). As long as the main thread has not come back from \<open>write_report\<close>, no
  frame has been written. Once it has, every future was done before: the trace is
  what the tasks did, with no frame written among it, followed by the one write of the
  frame, after which nothing happens. The frame is sorted ascending by \<open>name\<close>, holds
  the reports collected, each as often as it was collected, and these are the reports
  of the tasks that reached \<open>Reported\<close>. And the main thread does get there: once every
  task has had its turns, its next turn writes the report.
\<close>

theorem report_written_once_sorted:
  assumes "writable w (REPORT_FILE cfg)"
  shows "(main_done (main cfg net data sched w) = None \<longrightarrow>
            excel_writes (trace (env (main cfg net data sched w))) = excel_writes (trace w)) \<and>
         (main_done (main cfg net data sched w) \<noteq> None \<longrightarrow>
            main_done (main cfg net data sched w) = Some (Inr ()) \<and>
            map fst (futures (main cfg net data sched w)) = data \<and>
            list_all (\<lambda>t. finished (snd t)) (futures (main cfg net data sched w)) \<and>
            (\<exists>evs df.
               trace (env (main cfg net data sched w)) =
                 trace w @ evs @ [ToExcel (REPORT_FILE cfg) df] \<and>
               excel_writes evs = [] \<and>
               files (env (main cfg net data sched w)) (REPORT_FILE cfg) = Some (File (Sheet df)) \<and>
               sorted (map name df) \<and>
               mset df = mset (collected (main cfg net data sched w)) \<and>
               mset (map name df) = mset (reported_names (futures (main cfg net data sched w))))) \<and>
         (enough pre data \<longrightarrow> main_done (main cfg net data (pre @ MainThread # post) w) \<noteq> None)"
proof (intro conjI impI)
  let ?init = "\<lparr>futures = map (\<lambda>row. (row, Pending)) data, collected = [], env = w, main_done = None\<rparr>"
  let ?st = "main cfg net data sched w"
  have m0: "main_done ?init = None" by simp
  have w0: "writable (env ?init) (REPORT_FILE cfg)" using assms by simp
  note rep = run_report[OF m0 initial_pool(1) w0, of net sched, folded main_def]
  note inv = run_invariants[OF initial_pool, where cfg = cfg and data1 = data and w1 = w
      and net = net and sched = sched, folded main_def]
  show "excel_writes (trace (env ?st)) = excel_writes (trace w)" if "main_done ?st = None"
    using rep that by (auto simp: excel_writes_append)
  assume d: "main_done ?st \<noteq> None"
  from rep d show "main_done ?st = Some (Inr ())" by blast
  from inv show "map fst (futures ?st) = data" by (simp add: comp_def)
  from rep d show "list_all (\<lambda>t. finished (snd t)) (futures ?st)" by blast
  from rep d obtain evs df where
    t: "trace (env ?st) = trace w @ evs @ [ToExcel (REPORT_FILE cfg) df]"
    and x: "excel_writes evs = []" and s: "sorted (map name df)"
    and m: "mset df = mset (collected ?st)"
    and f: "files (env ?st) (REPORT_FILE cfg) = Some (File (Sheet df))"
    by auto
  from m have "mset (map name df) = mset (map name (collected ?st))"
    by (metis mset_map)
  with inv have "mset (map name df) = mset (reported_names (futures ?st))" by simp
  with t x s m f show "\<exists>evs df.
               trace (env ?st) = trace w @ evs @ [ToExcel (REPORT_FILE cfg) df] \<and>
               excel_writes evs = [] \<and>
               files (env ?st) (REPORT_FILE cfg) = Some (File (Sheet df)) \<and>
               sorted (map name df) \<and>
               mset df = mset (collected ?st) \<and>
               mset (map name df) = mset (reported_names (futures ?st))"
    by blast
next
  let ?init = "\<lparr>futures = map (\<lambda>row. (row, Pending)) data, collected = [], env = w, main_done = None\<rparr>"
  assume e: "enough pre data"
  have m0: "main_done ?init = None" by simp
  have w0: "writable (env ?init) (REPORT_FILE cfg)" using assms by simp
  from enough_drains[OF e, of cfg net w]
  have "list_all (\<lambda>t. finished (snd t)) (futures (run cfg net pre ?init))" by (simp add: main_def)
  from run_reaches_write[OF m0 initial_pool(1) w0 this, of post]
  show "main_done (main cfg net data (pre @ MainThread # post) w) \<noteq> None" by (simp add: main_def)
qed

theorem report_written_once_sorted_witness:
  "writable example_world (REPORT_FILE settings_jpeg) \<and>
   enough [Worker 1, Worker 0, Worker 1, Worker 0, Worker 1, Worker 0,
           Worker 1, Worker 0, Worker 1, Worker 0, Worker 1, Worker 0]
     [(''b'', [PStr ''A'']), (''a'', [PStr ''B''])] \<and>
   main_done (main settings_jpeg example_net [(''b'', [PStr ''A'']), (''a'', [PStr ''B''])]
      ([Worker 1, Worker 0, Worker 1, Worker 0, Worker 1, Worker 0,
        Worker 1, Worker 0, Worker 1, Worker 0, Worker 1, Worker 0] @ MainThread # [Worker 0])
      example_world) = Some (Inr ()) \<and>
   excel_writes (trace (env (main settings_jpeg example_net
      [(''b'', [PStr ''A'']), (''a'', [PStr ''B''])]
      ([Worker 1, Worker 0, Worker 1, Worker 0, Worker 1, Worker 0,
        Worker 1, Worker 0, Worker 1, Worker 0, Worker 1, Worker 0] @ MainThread # [Worker 0])
      example_world))) =
     [(''./reports/test_jpeg.xlsx'',
       [\<lparr>name = ''a'', success = False, from_url = '''', exceptions_encountered = ''timed out''\<rparr>,
        \<lparr>name = ''b'', success = True, from_url = ''A'', exceptions_encountered = ''''\<rparr>])] \<and>
   main_done (main settings_jpeg example_net [(''b'', [PStr ''A'']), (''a'', [PStr ''B''])]
      [MainThread, Worker 1, Worker 0, MainThread, Worker 1] example_world) = None \<and>
   excel_writes (trace (env (main settings_jpeg example_net
      [(''b'', [PStr ''A'']), (''a'', [PStr ''B''])]
      [MainThread, Worker 1, Worker 0, MainThread, Worker 1] example_world))) = []"
proof -
  let ?data = "[(''b'', [PStr ''A'']), (''a'', [PStr ''B''])]"
  let ?pre = "[Worker 1, Worker 0, Worker 1, Worker 0, Worker 1, Worker 0,
        Worker 1, Worker 0, Worker 1, Worker 0, Worker 1, Worker 0]"
  let ?st = "main settings_jpeg example_net ?data (?pre @ MainThread # [Worker 0]) example_world"
  let ?early = "main settings_jpeg example_net ?data
      [MainThread, Worker 1, Worker 0, MainThread, Worker 1] example_world"
  have h: "writable example_world (REPORT_FILE settings_jpeg)"
    by (simp add: writable_def ex_defs run_defs)
  have e: "enough ?pre ?data" by (simp add: enough_def upt_conv_Cons)
  note inst = report_written_once_sorted[OF h, of example_net ?data _ ?pre "[Worker 0]"]
  from inst[of "?pre @ MainThread # [Worker 0]"] e
  have d: "main_done ?st \<noteq> None" by blast
  with inst[of "?pre @ MainThread # [Worker 0]"]
  have d1: "main_done ?st = Some (Inr ())" by blast
  have x: "excel_writes (trace (env ?st)) =
     [(''./reports/test_jpeg.xlsx'',
       [\<lparr>name = ''a'', success = False, from_url = '''', exceptions_encountered = ''timed out''\<rparr>,
        \<lparr>name = ''b'', success = True, from_url = ''A'', exceptions_encountered = ''''\<rparr>])]"
    by (simp add: pool_defs ex_defs run_defs)
  have n: "main_done ?early = None" by (simp add: pool_defs ex_defs run_defs)
  with inst[of "[MainThread, Worker 1, Worker 0, MainThread, Worker 1]"]
  have "excel_writes (trace (env ?early)) = excel_writes (trace example_world)" by blast
  then have x0: "excel_writes (trace (env ?early)) = []" by (simp add: example_world_def)
  from h e d1 x n x0 show ?thesis by simp
qed

subsection \<open>C6: a failed request is recorded and the loop goes on\<close>

text \<open>
  Claim C6: when the request to a candidate raises, the loop appends the exception to
  the list and carries on with the candidates that remain, the winner so far untouched.
  The exception never leaves the resolver: if the resolver raises at all, it raises the
  \<open>KeyError\<close> of a later candidate's header lookup; and if no later candidate does that,
  the resolver returns, the failure being one entry of its list.
\<close>

theorem transport_failure_recorded:
  assumes "net u (TIMEOUT cfg) = Inl e"
  shows "try_links_loop cfg net (u # links) res excs w =
           try_links_loop cfg net links res (excs @ [e]) (w\<lparr>trace := trace w @ [Get u]\<rparr>) \<and>
         (\<forall>err excs' w'. try_links_loop cfg net (u # links) res excs w = (Inl err, excs', w') \<longrightarrow>
            err = KeyError ''content-type'' \<and> (\<exists>v \<in> set links. check_raises cfg net v)) \<and>
         ((\<forall>v \<in> set links. \<not> check_raises cfg net v) \<longrightarrow>
            try_links_loop cfg net (u # links) res excs w =
              (Inr (winner cfg net links res), excs @ e # failures cfg net links,
               w\<lparr>trace := trace w @ map Get (u # links)\<rparr>))"
proof (intro conjI allI impI)
  show step: "try_links_loop cfg net (u # links) res excs w =
           try_links_loop cfg net links res (excs @ [e]) (w\<lparr>trace := trace w @ [Get u]\<rparr>)"
    using assms by (simp add: Let_def)
  fix err excs' w'
  assume r: "try_links_loop cfg net (u # links) res excs w = (Inl err, excs', w')"
  from r show "err = KeyError ''content-type''" by (rule try_links_loop_error)
  show "\<exists>v \<in> set links. check_raises cfg net v"
  proof (rule ccontr)
    assume "\<not> (\<exists>v \<in> set links. check_raises cfg net v)"
    then have "\<forall>v \<in> set links. \<not> check_raises cfg net v" by simp
    from try_links_loop_returns[OF this, of res "excs @ [e]" "w\<lparr>trace := trace w @ [Get u]\<rparr>"]
      r step show False by simp
  qed
next
  assume nr: "\<forall>v \<in> set links. \<not> check_raises cfg net v"
  have step: "try_links_loop cfg net (u # links) res excs w =
           try_links_loop cfg net links res (excs @ [e]) (w\<lparr>trace := trace w @ [Get u]\<rparr>)"
    using assms by (simp add: Let_def)
  show "try_links_loop cfg net (u # links) res excs w =
              (Inr (winner cfg net links res), excs @ e # failures cfg net links,
               w\<lparr>trace := trace w @ map Get (u # links)\<rparr>)"
    using try_links_loop_returns[OF nr, of res "excs @ [e]" "w\<lparr>trace := trace w @ [Get u]\<rparr>"] step
    by simp
qed

theorem transport_failure_recorded_witness:
  "example_net (PStr ''B'') (TIMEOUT settings_jpeg) = Inl (RequestException ''timed out'') \<and>
   try_links_loop settings_jpeg example_net [PStr ''B'', PStr ''C''] None [] example_world =
     (Inr (Some (jpeg_response ''C'')), [RequestException ''timed out''],
      example_world\<lparr>trace := [Get (PStr ''B''), Get (PStr ''C'')]\<rparr>)"
proof -
  have h: "example_net (PStr ''B'') (TIMEOUT settings_jpeg) = Inl (RequestException ''timed out'')"
    by (simp add: ex_defs)
  have nr: "\<forall>v \<in> set [PStr ''C'']. \<not> check_raises settings_jpeg example_net v"
    by (simp add: check_raises_def ex_defs)
  from transport_failure_recorded[where net = example_net and u = "PStr ''B''"
      and cfg = settings_jpeg and e = "RequestException ''timed out''" and links = "[PStr ''C'']"
      and res = None and excs = "[]" and w = example_world] h nr
  have "try_links_loop settings_jpeg example_net [PStr ''B'', PStr ''C''] None [] example_world =
     (Inr (winner settings_jpeg example_net [PStr ''C''] None),
      [] @ RequestException ''timed out'' # failures settings_jpeg example_net [PStr ''C''],
      example_world\<lparr>trace := trace example_world @ map Get [PStr ''B'', PStr ''C'']\<rparr>)"
    by blast
  with h show ?thesis
    by (simp add: ex_defs accepted_def is_correct_filetype_def jpeg_in_image_jpeg)
qed

subsection \<open>C7: a response of the wrong type is passed over\<close>

text \<open>
  Claim C7: when the request to a candidate completes and the content type of the
  response does not contain the file type, the loop carries on with the candidates that
  remain: nothing is appended to the exceptions, the winner so far stays, nothing is
  raised.
\<close>

theorem mismatch_not_recorded:
  assumes "net u (TIMEOUT cfg) = Inr r"
    and "headers r ''content-type'' = Some ct"
    and "\<not> sublist (FILETYPE cfg) ct"
  shows "try_links_loop cfg net (u # links) res excs w =
           try_links_loop cfg net links res excs (w\<lparr>trace := trace w @ [Get u]\<rparr>)"
  using assms by (simp add: Let_def is_correct_filetype_def)

theorem mismatch_not_recorded_witness:
  "example_net (PStr ''H'') (TIMEOUT settings_jpeg) = Inr (html_response ''H'') \<and>
   headers (html_response ''H'') ''content-type'' = Some ''text/html'' \<and>
   \<not> sublist (FILETYPE settings_jpeg) ''text/html'' \<and>
   try_links_loop settings_jpeg example_net [PStr ''H''] None [] example_world =
     (Inr None, [], example_world\<lparr>trace := [Get (PStr ''H'')]\<rparr>)"
proof -
  have h1: "example_net (PStr ''H'') (TIMEOUT settings_jpeg) = Inr (html_response ''H'')"
    by (simp add: ex_defs)
  have h2: "headers (html_response ''H'') ''content-type'' = Some ''text/html''"
    by (simp add: ex_defs)
  have h3: "\<not> sublist (FILETYPE settings_jpeg) ''text/html''"
    by (simp add: settings_jpeg_def jpeg_not_in_text_html)
  from mismatch_not_recorded[where net = example_net and u = "PStr ''H''"
      and cfg = settings_jpeg and r = "html_response ''H''" and ct = "''text/html''"
      and links = "[]" and res = None and excs = "[]" and w = example_world] h1 h2 h3
  show ?thesis by (simp add: example_world_def)
qed

subsection \<open>C8: a row without links\<close>

text \<open>
  Claim C8: for a row that the gate does not skip and whose link cells all print as
  \<open>nan\<close>, the task returns normally, the world is unchanged (no request was sent), and
  one report is appended: not a success, with an empty source address and empty failure
  details.
\<close>

theorem all_null_row_fails_quietly:
  assumes "\<forall>x \<in> set cells. str x = ''nan''"
    and "\<not> should_skip cfg w nm"
  shows "thread_job cfg net (nm, cells) reports w =
           (Inr (),
            reports @ [\<lparr>name = nm, success = False, from_url = '''', exceptions_encountered = ''''\<rparr>],
            w)"
proof -
  from assms(1) have "filter (\<lambda>x. str x \<noteq> ''nan'') cells = []"
    by (induction cells) auto
  with assms(2) show ?thesis
    by (auto simp: thread_job_def try_links_def should_skip_def file_exists_def add_to_report_def)
qed

theorem all_null_row_fails_quietly_witness:
  "filter (\<lambda>x. str x \<noteq> ''nan'') [PNaN, PStr ''nan''] = [] \<and>
   \<not> should_skip settings_jpeg example_world ''old'' \<and>
   thread_job settings_jpeg example_net (''old'', [PNaN, PStr ''nan'']) [] example_world =
     (Inr (),
      [\<lparr>name = ''old'', success = False, from_url = '''', exceptions_encountered = ''''\<rparr>],
      example_world)"
proof -
  have h1: "\<forall>x \<in> set [PNaN, PStr ''nan'']. str x = ''nan''" by simp
  have h2: "\<not> should_skip settings_jpeg example_world ''old''"
    by (simp add: should_skip_def settings_jpeg_def)
  from all_null_row_fails_quietly[OF h1 h2, of example_net "[]"] h2
  show ?thesis by simp
qed

subsection \<open>C9: only a status of 200 can win\<close>

text \<open>
  Claim C9: a response that the resolver returns as the winner has the status code 200
  (and passed the content-type test, and is the response of one of the candidates); a
  response with any other status code is passed over, whatever its headers say.
\<close>

theorem winner_has_status_200:
  "(try_links cfg net links excs w = (Inr (Some r), excs', w') \<longrightarrow>
      status_code r = 200 \<and> accepted cfg r \<and> (\<exists>u \<in> set links. net u (TIMEOUT cfg) = Inr r)) \<and>
   (net u (TIMEOUT cfg) = Inr r' \<and> status_code r' \<noteq> 200 \<longrightarrow>
      try_links_loop cfg net (u # links) res excs w =
      try_links_loop cfg net links res excs (w\<lparr>trace := trace w @ [Get u]\<rparr>))"
proof (intro conjI impI)
  assume a: "try_links cfg net links excs w = (Inr (Some r), excs', w')"
  then have "winner cfg net links None = Some r"
    using try_links_loop_Inr(1)[of cfg net links None excs w "Some r" excs' w']
    by (simp add: try_links_def)
  from winner_accepted[OF this]
  have acc: "accepted cfg r" and ex: "\<exists>u \<in> set links. net u (TIMEOUT cfg) = Inr r" by simp_all
  from acc show "status_code r = 200" by (simp add: accepted_def)
  from acc show "accepted cfg r" .
  from ex show "\<exists>u \<in> set links. net u (TIMEOUT cfg) = Inr r" .
next
  assume "net u (TIMEOUT cfg) = Inr r' \<and> status_code r' \<noteq> 200"
  then show "try_links_loop cfg net (u # links) res excs w =
      try_links_loop cfg net links res excs (w\<lparr>trace := trace w @ [Get u]\<rparr>)"
    by (simp add: Let_def)
qed

theorem winner_has_status_200_witness:
  "try_links settings_jpeg example_net [PStr ''A'', PStr ''E''] [] example_world =
     (Inr (Some (jpeg_response ''A'')), [],
      example_world\<lparr>trace := [Get (PStr ''A''), Get (PStr ''E'')]\<rparr>) \<and>
   status_code (jpeg_response ''A'') = 200 \<and>
   example_net (PStr ''E'') (TIMEOUT settings_jpeg) = Inr (bare_response 404 ''E'') \<and>
   status_code (bare_response 404 ''E'') \<noteq> 200 \<and>
   try_links_loop settings_jpeg example_net [PStr ''E''] (Some (jpeg_response ''A'')) [] example_world =
     try_links_loop settings_jpeg example_net [] (Some (jpeg_response ''A'')) []
       (example_world\<lparr>trace := trace example_world @ [Get (PStr ''E'')]\<rparr>)"
proof -
  have run: "try_links settings_jpeg example_net [PStr ''A'', PStr ''E''] [] example_world =
     (Inr (Some (jpeg_response ''A'')), [],
      example_world\<lparr>trace := [Get (PStr ''A''), Get (PStr ''E'')]\<rparr>)"
    by (simp add: ex_defs run_defs)
  have e: "example_net (PStr ''E'') (TIMEOUT settings_jpeg) = Inr (bare_response 404 ''E'') \<and>
     status_code (bare_response 404 ''E'') \<noteq> 200"
    by (simp add: ex_defs)
  from winner_has_status_200[where cfg = settings_jpeg and net = example_net
      and links = "[PStr ''A'', PStr ''E'']" and excs = "[]" and w = example_world
      and r = "jpeg_response ''A''" and excs' = "[]"
      and w' = "example_world\<lparr>trace := [Get (PStr ''A''), Get (PStr ''E'')]\<rparr>"
      and u = "PStr ''E''" and r' = "bare_response 404 ''E''"
      and res = "Some (jpeg_response ''A'')"] run e
  show ?thesis by simp
qed

subsection \<open>C10: a response without a content type\<close>

text \<open>
  Claim C10 says that any completed response without a \<open>content-type\<close> header ends the
  row with an exception and without a report. The header is looked up only after the
  status code was found to be 200: the row whose only link answers 404 without the
  header gets its report.
\<close>

theorem row_reported_despite_missing_header:
  "example_net (PStr ''E'') (TIMEOUT settings_jpeg) = Inr (bare_response 404 ''E'') \<and>
   headers (bare_response 404 ''E'') ''content-type'' = None \<and>
   thread_job settings_jpeg example_net (''new'', [PStr ''E'']) [] example_world =
     (Inr (),
      [\<lparr>name = ''new'', success = False, from_url = '''', exceptions_encountered = ''''\<rparr>],
      example_world\<lparr>trace := [Get (PStr ''E'')]\<rparr>)"
  by (simp add: ex_defs run_defs)

text \<open>
  Claim C10, as the code has it: the check raises \<open>KeyError\<close> on a response without the
  header; and when a link of a row that the gate does not skip is answered with the
  status code 200 and without the header, the task ends with that \<open>KeyError\<close>, the
  reports as they were and no file touched.
\<close>

theorem missing_header_aborts_row:
  assumes "\<not> should_skip cfg w nm"
    and "u \<in> set cells" and "str u \<noteq> ''nan''"
    and "net u (TIMEOUT cfg) = Inr r" and "status_code r = 200"
    and "headers r ''content-type'' = None"
  shows "is_correct_filetype cfg r = Inl (KeyError ''content-type'') \<and>
         (\<exists>w'. thread_job cfg net (nm, cells) reports w = (Inl (KeyError ''content-type''), reports, w') \<and>
               files w' = files w)"
proof
  from assms(6) show "is_correct_filetype cfg r = Inl (KeyError ''content-type'')"
    by (simp add: is_correct_filetype_def)
  let ?links = "filter (\<lambda>x. str x \<noteq> ''nan'') cells"
  obtain o1 ex1 w1 where t: "try_links cfg net ?links [] w = (o1, ex1, w1)"
    by (cases "try_links cfg net ?links [] w") auto
  from assms have "\<exists>v \<in> set ?links. check_raises cfg net v"
    by (auto simp: check_raises_def)
  from try_links_loop_raises[OF this, of None "[]" w] t
  have o1: "o1 = Inl (KeyError ''content-type'')" by (simp add: try_links_def)
  from assms(1) have "\<not> (DOWNLOAD_ALL cfg = False \<and> file_exists cfg w nm)"
    by (auto simp: should_skip_def file_exists_def)
  with t o1 have "thread_job cfg net (nm, cells) reports w = (Inl (KeyError ''content-type''), reports, w1)"
    by (auto simp: thread_job_def)
  with try_links_effects[OF t]
  show "\<exists>w'. thread_job cfg net (nm, cells) reports w = (Inl (KeyError ''content-type''), reports, w') \<and>
               files w' = files w" by simp
qed

theorem missing_header_aborts_row_witness:
  "\<not> should_skip settings_jpeg example_world ''new'' \<and>
   PStr ''D'' \<in> set [PStr ''A'', PStr ''D''] \<and> str (PStr ''D'') \<noteq> ''nan'' \<and>
   example_net (PStr ''D'') (TIMEOUT settings_jpeg) = Inr (bare_response 200 ''D'') \<and>
   status_code (bare_response 200 ''D'') = 200 \<and>
   headers (bare_response 200 ''D'') ''content-type'' = None \<and>
   is_correct_filetype settings_jpeg (bare_response 200 ''D'') = Inl (KeyError ''content-type'') \<and>
   (\<exists>w'. thread_job settings_jpeg example_net (''new'', [PStr ''A'', PStr ''D'']) [] example_world =
            (Inl (KeyError ''content-type''), [], w') \<and>
         files w' = files example_world)"
proof -
  have h1: "\<not> should_skip settings_jpeg example_world ''new''"
    by (simp add: should_skip_def ex_defs)
  have h2: "PStr ''D'' \<in> set [PStr ''A'', PStr ''D'']" by simp
  have h3: "str (PStr ''D'') \<noteq> ''nan''" by simp
  have h4: "example_net (PStr ''D'') (TIMEOUT settings_jpeg) = Inr (bare_response 200 ''D'')"
    by (simp add: ex_defs)
  have h5: "status_code (bare_response 200 ''D'') = 200" by (simp add: ex_defs)
  have h6: "headers (bare_response 200 ''D'') ''content-type'' = None" by (simp add: ex_defs)
  from missing_header_aborts_row[where cfg = settings_jpeg and w = example_world and nm = "''new''"
      and u = "PStr ''D''" and cells = "[PStr ''A'', PStr ''D'']" and net = example_net
      and r = "bare_response 200 ''D''" and reports = "[]", OF h1 h2 h3 h4 h5 h6]
    h1 h2 h3 h4 h5 h6
  show ?thesis by blast
qed

end
